theory Spec2Isabelle
  imports Main
begin

section \<open>Python data: exceptions, list indexing, the board\<close>

text \<open>
  The exceptions that the modelled code can raise. Every function that can raise returns
  a sum, with \<open>Inl\<close> carrying the exception.
\<close>

datatype error = IndexError | ValueError

type_synonym coord = "int \<times> int"

text \<open>A board is a list of rows, every cell one of the strings \<open>" "\<close>, \<open>"X"\<close>, \<open>"-"\<close>.\<close>

type_synonym board = "string list list"

text \<open>
  Python's \<open>xs[i]\<close>: an index in \<open>[-n, 0)\<close> counts from the end, an index outside
  \<open>[-n, n)\<close> raises IndexError.
\<close>

definition py_index :: "'a list \<Rightarrow> int \<Rightarrow> error + nat" where
  "py_index xs i =
     (let n = int (length xs); j = (if i < 0 then i + n else i)
      in if 0 \<le> j \<and> j < n then Inr (nat j) else Inl IndexError)"

definition getitem :: "'a list \<Rightarrow> int \<Rightarrow> error + 'a" where
  "getitem xs i = (case py_index xs i of Inl e \<Rightarrow> Inl e | Inr j \<Rightarrow> Inr (xs ! j))"

definition setitem :: "'a list \<Rightarrow> int \<Rightarrow> 'a \<Rightarrow> error + 'a list" where
  "setitem xs i v = (case py_index xs i of Inl e \<Rightarrow> Inl e | Inr j \<Rightarrow> Inr (xs[j := v]))"

text \<open>\<open>grid[r][c]\<close> and \<open>grid[r][c] = v\<close>; the rows of a board are distinct objects.\<close>

definition grid_get :: "'a list list \<Rightarrow> int \<Rightarrow> int \<Rightarrow> error + 'a" where
  "grid_get g r c = (case getitem g r of Inl e \<Rightarrow> Inl e | Inr row \<Rightarrow> getitem row c)"

definition grid_set :: "'a list list \<Rightarrow> int \<Rightarrow> int \<Rightarrow> 'a \<Rightarrow> error + 'a list list" where
  "grid_set g r c v =
     (case getitem g r of
        Inl e \<Rightarrow> Inl e
      | Inr row \<Rightarrow>
          (case setitem row c v of
             Inl e \<Rightarrow> Inl e
           | Inr row' \<Rightarrow> setitem g r row'))"

text \<open>A square board of side \<open>n\<close>.\<close>

definition square :: "nat \<Rightarrow> 'a list list \<Rightarrow> bool" where
  "square n g = (length g = n \<and> list_all (\<lambda>row. length row = n) g)"

text \<open>\<open>cell in ["-", "X"]\<close>\<close>

definition attacked :: "string \<Rightarrow> bool" where
  "attacked v = (v = ''-'' \<or> v = ''X'')"

section \<open>ShipManager\<close>

text \<open>
  \<open>ship_locations\<close> is a dict; its iteration order is the insertion order, which
  \<open>check_sunk_ship\<close> depends on, so it is an association list with the keys in
  insertion order.
\<close>

type_synonym fleet = "(string \<times> coord list) list"

record ship_manager =
  grid :: board
  ship_locations :: fleet
  opponent :: string

text \<open>\<open>[[" "] * BOARD_SIZE for _ in range(BOARD_SIZE)]\<close>, with the board size given.\<close>

definition ShipManager_init :: "int \<Rightarrow> string \<Rightarrow> ship_manager" where
  "ShipManager_init bsize opp =
     \<lparr>grid = replicate (nat bsize) (replicate (nat bsize) '' ''),
      ship_locations = [], opponent = opp\<rparr>"

text \<open>\<open>self.ship_locations.setdefault(ship, []).append(pos)\<close>\<close>

fun setdefault_append :: "string \<Rightarrow> coord \<Rightarrow> fleet \<Rightarrow> fleet" where
  "setdefault_append ship pos [] = [(ship, [pos])]"
| "setdefault_append ship pos ((k, ps) # rest) =
     (if k = ship then (k, ps @ [pos]) # rest
      else (k, ps) # setdefault_append ship pos rest)"

text \<open>
  The body of either loop of \<open>deploy_ship\<close>, over the cells of the run in order. The
  object is mutated in place, so a run that raises midway leaves the cells written so far:
  the result is the exception, if any, and the state reached.
\<close>

fun deploy_cells :: "string \<Rightarrow> coord list \<Rightarrow> ship_manager \<Rightarrow> error option \<times> ship_manager" where
  "deploy_cells ship [] sm = (None, sm)"
| "deploy_cells ship ((r, c) # cs) sm =
     (case grid_set (grid sm) r c ''X'' of
        Inl e \<Rightarrow> (Some e, sm)
      | Inr g \<Rightarrow>
          deploy_cells ship cs
            (sm\<lparr>grid := g,
                ship_locations := setdefault_append ship (r, c) (ship_locations sm)\<rparr>))"

text \<open>\<open>range(a, a + n)\<close>\<close>

definition py_range :: "int \<Rightarrow> int \<Rightarrow> int list" where
  "py_range a b = [a..b - 1]"

definition run_cells :: "int \<Rightarrow> int \<Rightarrow> string \<Rightarrow> int \<Rightarrow> coord list" where
  "run_cells row column orientation len =
     (if orientation = ''H'' then map (\<lambda>i. (row, i)) (py_range column (column + len))
      else map (\<lambda>i. (i, column)) (py_range row (row + len)))"

definition deploy_ship ::
  "string \<Rightarrow> int \<Rightarrow> int \<Rightarrow> int \<Rightarrow> string \<Rightarrow> ship_manager \<Rightarrow> error option \<times> ship_manager" where
  "deploy_ship ship len row column orientation sm =
     deploy_cells ship (run_cells row column orientation len) sm"

text \<open>
  \<open>check_sunk_ship\<close>: the loop over \<open>ship_locations.items()\<close>. A ship that holds the
  coordinate loses its first occurrence (\<open>list.remove\<close>); if its list is then empty the
  entry is deleted and the loop is left, otherwise the loop goes on to the next ship. The
  printed notice is not modelled.
\<close>

fun sunk_scan :: "coord \<Rightarrow> fleet \<Rightarrow> fleet" where
  "sunk_scan p [] = []"
| "sunk_scan p ((ship, positions) # rest) =
     (if p \<in> set positions then
        (if remove1 p positions = [] then rest
         else (ship, remove1 p positions) # sunk_scan p rest)
      else (ship, positions) # sunk_scan p rest)"

definition check_sunk_ship :: "int \<Rightarrow> int \<Rightarrow> ship_manager \<Rightarrow> ship_manager" where
  "check_sunk_ship row column sm =
     sm\<lparr>ship_locations := sunk_scan (row, column) (ship_locations sm)\<rparr>"

text \<open>\<open>all(not positions for positions in self.ship_locations.values())\<close>\<close>

definition all_ships_sunk :: "ship_manager \<Rightarrow> bool" where
  "all_ships_sunk sm = list_all (\<lambda>(ship, positions). positions = []) (ship_locations sm)"

text \<open>
  The states a ShipManager can be in: built by the constructor, changed by its two
  mutating methods, and its grid written cell by cell by the players (the attack boards).
  No code of the repository assigns \<open>ship_locations\<close> from outside the class.
\<close>

inductive reachable_sm :: "ship_manager \<Rightarrow> bool" where
  constructed: "reachable_sm (ShipManager_init bsize opp)"
| deployed: "reachable_sm sm \<Longrightarrow> deploy_ship ship len row column orientation sm = (e, sm')
           \<Longrightarrow> reachable_sm sm'"
| checked: "reachable_sm sm \<Longrightarrow> reachable_sm (check_sunk_ship row column sm)"
| grid_written: "reachable_sm sm \<Longrightarrow> reachable_sm (sm\<lparr>grid := g\<rparr>)"

section \<open>BoardValidator\<close>

definition validate_placement :: "int \<Rightarrow> int \<Rightarrow> int \<Rightarrow> int \<Rightarrow> string \<Rightarrow> bool" where
  "validate_placement bsize len row column orientation =
     (if orientation = ''H'' then column + len \<le> bsize else row + len \<le> bsize)"

text \<open>
  \<open>any(grid[r][c] == "X" for ...)\<close>: the generator reads the cells in order and stops at
  the first ship cell; a read out of range raises.
\<close>

fun any_ship_cell :: "board \<Rightarrow> coord list \<Rightarrow> error + bool" where
  "any_ship_cell g [] = Inr False"
| "any_ship_cell g ((r, c) # cs) =
     (case grid_get g r c of
        Inl e \<Rightarrow> Inl e
      | Inr v \<Rightarrow> if v = ''X'' then Inr True else any_ship_cell g cs)"

text \<open>\<open>check_overlap\<close>: \<open>except IndexError: return True\<close>; any other exception escapes.\<close>

definition check_overlap :: "board \<Rightarrow> int \<Rightarrow> int \<Rightarrow> string \<Rightarrow> int \<Rightarrow> error + bool" where
  "check_overlap g row column orientation len =
     (case any_ship_cell g (run_cells row column orientation len) of
        Inl IndexError \<Rightarrow> Inr True
      | Inl e \<Rightarrow> Inl e
      | Inr b \<Rightarrow> Inr b)"

section \<open>Configuration\<close>

text \<open>
  \<open>BOARD_SIZE\<close> and \<open>SHIP_TYPES\<close> are read from \<open>config.json\<close>, which is not part of the
  sources; they are parameters of everything below. \<open>SHIP_TYPES\<close> is a dict from ship name
  to length, iterated in insertion order.
\<close>

record config =
  BOARD_SIZE :: int
  SHIP_TYPES :: "(string \<times> int) list"

section \<open>Players\<close>

text \<open>
  The fields of \<open>BasePlayer\<close> that the turn logic reads or writes. The display, the
  validator and \<open>hit_directions\<close> (read only by \<open>get_move\<close>, which nothing calls) are left
  out.
\<close>

record base_player =
  name :: string
  opponent_name :: string
  ship_manager :: ship_manager
  attack_board :: ship_manager

record computer_player = base_player +
  last_hit :: "coord option"
  hit_stack :: "coord list"
  direction :: "string option"
  probability_map :: "nat list list"

definition HumanPlayer_init :: "config \<Rightarrow> base_player" where
  "HumanPlayer_init cfg =
     \<lparr>name = ''Player'', opponent_name = ''Computer'',
      ship_manager = ShipManager_init (BOARD_SIZE cfg) ''Computer'',
      attack_board = ShipManager_init (BOARD_SIZE cfg) ''Computer''\<rparr>"

text \<open>
  \<open>np.zeros((BOARD_SIZE, BOARD_SIZE))\<close>; the weights are whole numbers throughout. For a
  negative size \<open>np.zeros\<close> raises, which the constructor below does not show: it is used
  with sizes from 0 on only.
\<close>

definition ComputerPlayer_init :: "config \<Rightarrow> computer_player" where
  "ComputerPlayer_init cfg =
     \<lparr>name = ''Computer'', opponent_name = ''Player'',
      ship_manager = ShipManager_init (BOARD_SIZE cfg) ''Player'',
      attack_board = ShipManager_init (BOARD_SIZE cfg) ''Player'',
      last_hit = None, hit_stack = [], direction = None,
      probability_map = replicate (nat (BOARD_SIZE cfg)) (replicate (nat (BOARD_SIZE cfg)) 0)\<rparr>"

text \<open>A loop whose body can raise: the first exception leaves the loop.\<close>

fun for_each :: "('a \<Rightarrow> 's \<Rightarrow> error + 's) \<Rightarrow> 'a list \<Rightarrow> 's \<Rightarrow> error + 's" where
  "for_each body [] s = Inr s"
| "for_each body (x # xs) s =
     (case body x s of Inl e \<Rightarrow> Inl e | Inr s' \<Rightarrow> for_each body xs s')"

text \<open>
  The inner loop of \<open>can_place_ship\<close>: \<open>False\<close> at the first cell of the run that has been
  attacked.
\<close>

fun no_attacked_cell :: "board \<Rightarrow> coord list \<Rightarrow> error + bool" where
  "no_attacked_cell g [] = Inr True"
| "no_attacked_cell g ((r, c) # cs) =
     (case grid_get g r c of
        Inl e \<Rightarrow> Inl e
      | Inr v \<Rightarrow> if attacked v then Inr False else no_attacked_cell g cs)"

text \<open>The cells \<open>(row, col + i)\<close> or \<open>(row + i, col)\<close> for \<open>i in range(length)\<close>.\<close>

definition placement_cells :: "int \<Rightarrow> int \<Rightarrow> int \<Rightarrow> string \<Rightarrow> coord list" where
  "placement_cells row col len orientation =
     (if orientation = ''H'' then map (\<lambda>i. (row, col + i)) (py_range 0 len)
      else map (\<lambda>i. (row + i, col)) (py_range 0 len))"

text \<open>\<open>can_place_ship\<close> takes the opponent and never reads it.\<close>

definition can_place_ship ::
  "config \<Rightarrow> 'a base_player_scheme \<Rightarrow> base_player \<Rightarrow> int \<Rightarrow> int \<Rightarrow> int \<Rightarrow> string \<Rightarrow> error + bool" where
  "can_place_ship cfg self opp row col len orientation =
     (if orientation = ''H'' then
        (if col + len > BOARD_SIZE cfg then Inr False
         else no_attacked_cell (grid (attack_board self)) (placement_cells row col len orientation))
      else
        (if row + len > BOARD_SIZE cfg then Inr False
         else no_attacked_cell (grid (attack_board self)) (placement_cells row col len orientation)))"

section \<open>The probability map\<close>

text \<open>The pairs \<open>(row, col)\<close> of the two nested iterations over \<open>range(BOARD_SIZE)\<close>, in loop order.\<close>

definition board_cells :: "config \<Rightarrow> coord list" where
  "board_cells cfg =
     concat (map (\<lambda>row. map (\<lambda>col. (row, col)) (py_range 0 (BOARD_SIZE cfg)))
                 (py_range 0 (BOARD_SIZE cfg)))"

text \<open>First pass: weight 0 for an attacked cell, 1 for any other.\<close>

definition init_weight :: "board \<Rightarrow> coord \<Rightarrow> nat list list \<Rightarrow> error + nat list list" where
  "init_weight g rc pm =
     (case grid_get g (fst rc) (snd rc) of
        Inl e \<Rightarrow> Inl e
      | Inr v \<Rightarrow> grid_set pm (fst rc) (snd rc) (if attacked v then 0 else 1))"

text \<open>\<open>if grid[r][c] not in ["-", "X"]: probability_map[r][c] += 1\<close>\<close>

definition bump_cell :: "board \<Rightarrow> coord \<Rightarrow> nat list list \<Rightarrow> error + nat list list" where
  "bump_cell g rc pm =
     (case grid_get g (fst rc) (snd rc) of
        Inl e \<Rightarrow> Inl e
      | Inr v \<Rightarrow>
          if attacked v then Inr pm
          else (case grid_get pm (fst rc) (snd rc) of
                  Inl e \<Rightarrow> Inl e
                | Inr w \<Rightarrow> grid_set pm (fst rc) (snd rc) (w + 1)))"

text \<open>One placement test of the second pass and the increments that follow it.\<close>

definition count_placement ::
  "config \<Rightarrow> 'a base_player_scheme \<Rightarrow> base_player \<Rightarrow> int \<Rightarrow> int \<Rightarrow> int \<Rightarrow> string
     \<Rightarrow> nat list list \<Rightarrow> error + nat list list" where
  "count_placement cfg self opp row col len orientation pm =
     (case can_place_ship cfg self opp row col len orientation of
        Inl e \<Rightarrow> Inl e
      | Inr ok \<Rightarrow>
          if ok then
            for_each (bump_cell (grid (attack_board self)))
              (placement_cells row col len orientation) pm
          else Inr pm)"

text \<open>The body of the iteration over \<open>row\<close> and \<open>col\<close> for one ship: horizontal, then vertical.\<close>

definition count_at ::
  "config \<Rightarrow> 'a base_player_scheme \<Rightarrow> base_player \<Rightarrow> int \<Rightarrow> coord
     \<Rightarrow> nat list list \<Rightarrow> error + nat list list" where
  "count_at cfg self opp len rc pm =
     (case count_placement cfg self opp (fst rc) (snd rc) len ''H'' pm of
        Inl e \<Rightarrow> Inl e
      | Inr pm' \<Rightarrow> count_placement cfg self opp (fst rc) (snd rc) len ''V'' pm')"

text \<open>
  \<open>update_probability_map\<close>: \<open>fill(0)\<close>, the first pass, then the second pass over every
  entry of \<open>SHIP_TYPES\<close>. The result is the new \<open>probability_map\<close>.
\<close>

definition compute_probability_map ::
  "config \<Rightarrow> 'a base_player_scheme \<Rightarrow> base_player \<Rightarrow> nat list list \<Rightarrow> error + nat list list" where
  "compute_probability_map cfg self opp pm =
     (case for_each (init_weight (grid (attack_board self))) (board_cells cfg)
             (map (map (\<lambda>w. 0)) pm) of
        Inl e \<Rightarrow> Inl e
      | Inr pm1 \<Rightarrow>
          for_each (\<lambda>ship_len. for_each (count_at cfg self opp (snd ship_len)) (board_cells cfg))
            (SHIP_TYPES cfg) pm1)"

definition update_probability_map ::
  "config \<Rightarrow> computer_player \<Rightarrow> base_player \<Rightarrow> error + computer_player" where
  "update_probability_map cfg self opp =
     (case compute_probability_map cfg self opp (probability_map self) of
        Inl e \<Rightarrow> Inl e
      | Inr pm \<Rightarrow> Inr (self\<lparr>probability_map := pm\<rparr>))"

text \<open>
  \<open>np.argmax\<close> on the flattened (row-major) array: the index of the first greatest entry;
  ValueError on an empty array. The scan keeps the best index and value so far and replaces
  them only by a strictly greater entry.
\<close>

fun first_max_from :: "nat list \<Rightarrow> nat \<Rightarrow> nat \<Rightarrow> nat \<Rightarrow> nat" where
  "first_max_from [] i best bv = best"
| "first_max_from (x # xs) i best bv =
     (if bv < x then first_max_from xs (Suc i) i x else first_max_from xs (Suc i) best bv)"

definition np_argmax :: "nat list list \<Rightarrow> error + nat" where
  "np_argmax a = (case concat a of [] \<Rightarrow> Inl ValueError | x # xs \<Rightarrow> Inr (first_max_from xs 1 0 x))"

text \<open>\<open>np.unravel_index(idx, a.shape)\<close> for a two-dimensional array.\<close>

definition np_unravel_index :: "nat \<Rightarrow> nat list list \<Rightarrow> error + coord" where
  "np_unravel_index idx a =
     (let cols = (case a of [] \<Rightarrow> 0 | rw # _ \<Rightarrow> length rw)
      in if idx < length a * cols then Inr (int (idx div cols), int (idx mod cols))
         else Inl ValueError)"

text \<open>
  \<open>self.update_probability_map(opponent)\<close> followed by
  \<open>row, column = np.unravel_index(np.argmax(self.probability_map), self.probability_map.shape)\<close>.
\<close>

definition probability_target ::
  "config \<Rightarrow> computer_player \<Rightarrow> base_player \<Rightarrow> error + coord \<times> computer_player" where
  "probability_target cfg self opp =
     (case update_probability_map cfg self opp of
        Inl e \<Rightarrow> Inl e
      | Inr self' \<Rightarrow>
          (case np_argmax (probability_map self') of
             Inl e \<Rightarrow> Inl e
           | Inr idx \<Rightarrow>
               (case np_unravel_index idx (probability_map self') of
                  Inl e \<Rightarrow> Inl e
                | Inr rc \<Rightarrow> Inr (rc, self'))))"

section \<open>ComputerPlayer.take\_turn\<close>

text \<open>
  The list comprehension that keeps the moves on the board whose cell of the attack board is
  neither \<open>"-"\<close> nor \<open>"X"\<close>. The bounds are tested first, so the cell is read only for a move
  within \<open>[0, BOARD_SIZE)\<close>.
\<close>

fun filter_moves :: "config \<Rightarrow> board \<Rightarrow> coord list \<Rightarrow> error + coord list" where
  "filter_moves cfg g [] = Inr []"
| "filter_moves cfg g ((r, c) # ms) =
     (if 0 \<le> r \<and> r < BOARD_SIZE cfg \<and> 0 \<le> c \<and> c < BOARD_SIZE cfg then
        (case grid_get g r c of
           Inl e \<Rightarrow> Inl e
         | Inr v \<Rightarrow>
             (case filter_moves cfg g ms of
                Inl e \<Rightarrow> Inl e
              | Inr rest \<Rightarrow> Inr (if attacked v then rest else (r, c) # rest)))
      else filter_moves cfg g ms)"

text \<open>\<open>if self.direction:\<close> holds for a direction that is neither None nor the empty string.\<close>

definition direction_known :: "string option \<Rightarrow> bool" where
  "direction_known d = (case d of None \<Rightarrow> False | Some s \<Rightarrow> s \<noteq> [])"

text \<open>The moves around the last hit: along the known direction, or all four neighbours.\<close>

definition hunt_moves :: "string option \<Rightarrow> coord \<Rightarrow> coord list" where
  "hunt_moves d lh =
     (let row = fst lh; column = snd lh in
      if direction_known d then
        (if d = Some ''H'' then [(row, column - 1), (row, column + 1)]
         else [(row - 1, column), (row + 1, column)])
      else [(row - 1, column), (row + 1, column), (row, column - 1), (row, column + 1)])"

text \<open>
  \<open>random.choice(possible_moves)\<close> on a non-empty list: some element of it. The random
  draw is the parameter \<open>rnd\<close>.
\<close>

definition random_choice :: "nat \<Rightarrow> 'a list \<Rightarrow> 'a" where
  "random_choice rnd xs = xs ! (rnd mod length xs)"

text \<open>
  The first half of \<open>take_turn\<close>: the choice of \<open>row, column\<close>. It returns the chosen cell and
  the player as the choice has left it.
\<close>

definition select_target ::
  "config \<Rightarrow> nat \<Rightarrow> computer_player \<Rightarrow> base_player \<Rightarrow> error + coord \<times> computer_player" where
  "select_target cfg rnd self opp =
     (case hit_stack self of
        p # rest \<Rightarrow> Inr (p, self\<lparr>hit_stack := rest\<rparr>)
      | [] \<Rightarrow>
          (case last_hit self of
             Some lh \<Rightarrow>
               (case filter_moves cfg (grid (attack_board self)) (hunt_moves (direction self) lh) of
                  Inl e \<Rightarrow> Inl e
                | Inr possible_moves \<Rightarrow>
                    if possible_moves \<noteq> [] then Inr (random_choice rnd possible_moves, self)
                    else probability_target cfg
                           (self\<lparr>last_hit := None, direction := None, hit_stack := []\<rparr>) opp)
           | None \<Rightarrow> probability_target cfg self opp))"

text \<open>
  On a hit with a previous hit recorded: the direction is set from the shared row or column
  (and kept otherwise), and the cells beyond both ends of the pair are queued if they pass
  the filter.
\<close>

definition extend_hunt ::
  "config \<Rightarrow> coord \<Rightarrow> computer_player \<Rightarrow> error + computer_player" where
  "extend_hunt cfg rc self =
     (let row = fst rc; column = snd rc in
      case last_hit self of
        None \<Rightarrow> Inr self
      | Some lh \<Rightarrow>
          (let d = (if row = fst lh then Some ''H''
                    else if column = snd lh then Some ''V''
                    else direction self);
               next_moves =
                 (if d = Some ''H'' then
                    [(row, min column (snd lh) - 1), (row, max column (snd lh) + 1)]
                  else
                    [(min row (fst lh) - 1, column), (max row (fst lh) + 1, column)])
           in case filter_moves cfg (grid (attack_board self)) next_moves of
                Inl e \<Rightarrow> Inl e
              | Inr valid_moves \<Rightarrow>
                  Inr (self\<lparr>direction := d, hit_stack := hit_stack self @ valid_moves\<rparr>)))"

text \<open>
  The second half of \<open>take_turn\<close>: the attack on \<open>row, column\<close>. Both players are mutated, so
  both are returned.
\<close>

definition process_attack ::
  "config \<Rightarrow> coord \<Rightarrow> computer_player \<Rightarrow> base_player
     \<Rightarrow> error + computer_player \<times> base_player" where
  "process_attack cfg rc self opp =
     (let row = fst rc; column = snd rc in
      case grid_get (grid (ship_manager opp)) row column of
        Inl e \<Rightarrow> Inl e
      | Inr v \<Rightarrow>
          if v = ''X'' then
            (case grid_set (grid (attack_board self)) row column ''X'' of
               Inl e \<Rightarrow> Inl e
             | Inr g \<Rightarrow>
                 (case extend_hunt cfg rc (self\<lparr>attack_board := (attack_board self)\<lparr>grid := g\<rparr>\<rparr>) of
                    Inl e \<Rightarrow> Inl e
                  | Inr self' \<Rightarrow>
                      Inr (self'\<lparr>last_hit := Some (row, column)\<rparr>,
                           opp\<lparr>ship_manager := check_sunk_ship row column (ship_manager opp)\<rparr>)))
          else
            (case grid_set (grid (attack_board self)) row column ''-'' of
               Inl e \<Rightarrow> Inl e
             | Inr g \<Rightarrow> Inr (self\<lparr>attack_board := (attack_board self)\<lparr>grid := g\<rparr>\<rparr>, opp)))"

definition take_turn ::
  "config \<Rightarrow> nat \<Rightarrow> computer_player \<Rightarrow> base_player \<Rightarrow> error + computer_player \<times> base_player" where
  "take_turn cfg rnd self opp =
     (case select_target cfg rnd self opp of
        Inl e \<Rightarrow> Inl e
      | Inr (rc, self') \<Rightarrow> process_attack cfg rc self' opp)"

section \<open>Games\<close>

text \<open>
  The computer's side of \<open>GameLoop.run\<close>: its turns in sequence, one random draw per turn.
  The human's turns in between write the human's attack board and the computer's fleet, which
  \<open>ComputerPlayer.take_turn\<close> never reads, so they are left out.
\<close>

fun computer_turns ::
  "config \<Rightarrow> nat list \<Rightarrow> computer_player \<times> base_player \<Rightarrow> error + computer_player \<times> base_player" where
  "computer_turns cfg [] players = Inr players"
| "computer_turns cfg (rnd # rnds) players =
     (case take_turn cfg rnd (fst players) (snd players) of
        Inl e \<Rightarrow> Inl e
      | Inr players' \<Rightarrow> computer_turns cfg rnds players')"

text \<open>The deployment phase for placements that have passed the validator.\<close>

fun deploy_all :: "(string \<times> int \<times> int \<times> int \<times> string) list \<Rightarrow> ship_manager \<Rightarrow> ship_manager" where
  "deploy_all [] sm = sm"
| "deploy_all ((ship, len, row, column, orientation) # ps) sm =
     deploy_all ps (snd (deploy_ship ship len row column orientation sm))"

section \<open>Notions used in the statements\<close>

text \<open>The positions recorded for a ship, none if the ship has no entry.\<close>

definition positions_of :: "fleet \<Rightarrow> string \<Rightarrow> coord list" where
  "positions_of fl ship = (case map_of fl ship of None \<Rightarrow> [] | Some ps \<Rightarrow> ps)"

text \<open>Every ship that has an entry has a position left.\<close>

definition entries_nonempty :: "fleet \<Rightarrow> bool" where
  "entries_nonempty fl = list_all (\<lambda>(ship, positions). positions \<noteq> []) fl"

text \<open>Writing \<open>"X"\<close> into the cells \<open>js\<close> of one row.\<close>

definition mark_row :: "int list \<Rightarrow> string list \<Rightarrow> string list" where
  "mark_row js rw = fold (\<lambda>j rw. rw[nat j := ''X'']) js rw"

text \<open>A coordinate within \<open>[0, n)\<close> on both axes.\<close>

definition on_board :: "nat \<Rightarrow> coord \<Rightarrow> bool" where
  "on_board n rc = (0 \<le> fst rc \<and> fst rc < int n \<and> 0 \<le> snd rc \<and> snd rc < int n)"

text \<open>
  The attack board and the probability map of a computer player have the shape that the
  constructors give them.
\<close>

definition board_ok :: "config \<Rightarrow> computer_player \<Rightarrow> bool" where
  "board_ok cfg self =
     (0 \<le> BOARD_SIZE cfg \<and>
      square (nat (BOARD_SIZE cfg)) (grid (attack_board self)) \<and>
      square (nat (BOARD_SIZE cfg)) (probability_map self))"

text \<open>
  A run of \<open>len\<close> cells from \<open>(row, col)\<close> fits: it ends within the board and none of its
  cells has been attacked.
\<close>

definition fits :: "nat \<Rightarrow> board \<Rightarrow> int \<Rightarrow> int \<Rightarrow> int \<Rightarrow> string \<Rightarrow> bool" where
  "fits n g row col len orientation =
     ((if orientation = ''H'' then col + len \<le> int n else row + len \<le> int n) \<and>
      list_all (\<lambda>rc. \<not> attacked (g ! nat (fst rc) ! nat (snd rc)))
        (placement_cells row col len orientation))"

text \<open>The placement of length \<open>len\<close> at \<open>rc\<close> fits and runs through the cell \<open>(r, c)\<close>.\<close>

definition covers :: "nat \<Rightarrow> board \<Rightarrow> int \<Rightarrow> string \<Rightarrow> nat \<Rightarrow> nat \<Rightarrow> coord \<Rightarrow> bool" where
  "covers n g len orientation r c rc =
     (fits n g (fst rc) (snd rc) len orientation \<and>
      (int r, int c) \<in> set (placement_cells (fst rc) (snd rc) len orientation))"

text \<open>
  The number of placements of one length through a cell: the horizontal ones and the
  vertical ones, over all origins on the board.
\<close>

definition placements_through :: "config \<Rightarrow> board \<Rightarrow> int \<Rightarrow> nat \<Rightarrow> nat \<Rightarrow> nat" where
  "placements_through cfg g len r c =
     length (filter (covers (nat (BOARD_SIZE cfg)) g len ''H'' r c) (board_cells cfg)) +
     length (filter (covers (nat (BOARD_SIZE cfg)) g len ''V'' r c) (board_cells cfg))"

text \<open>
  The entries of \<open>SHIP_TYPES\<close> whose ship still has an entry in the opponent's fleet: the
  ships that are not sunk.
\<close>

definition remaining_ship_types :: "config \<Rightarrow> base_player \<Rightarrow> (string \<times> int) list" where
  "remaining_ship_types cfg opp =
     filter (\<lambda>ship_len. map_of (ship_locations (ship_manager opp)) (fst ship_len) \<noteq> None)
       (SHIP_TYPES cfg)"

text \<open>
  The hunt is exhausted: \<open>hit_stack\<close> is empty, \<open>last_hit\<close> is set, and none of the moves
  around it passes the filter. This is the case in which \<open>take_turn\<close> clears the hunt state
  and falls back on the probability map.
\<close>

definition hunt_exhausted :: "config \<Rightarrow> computer_player \<Rightarrow> bool" where
  "hunt_exhausted cfg self =
     (hit_stack self = [] \<and>
      (case last_hit self of
         None \<Rightarrow> False
       | Some lh \<Rightarrow>
           filter_moves cfg (grid (attack_board self)) (hunt_moves (direction self) lh) = Inr []))"

text \<open>A step of a loop on the probability map that adds \<open>d r c\<close> to every cell \<open>(r, c)\<close>.\<close>

definition adds ::
  "nat \<Rightarrow> (nat \<Rightarrow> nat \<Rightarrow> nat) \<Rightarrow> nat list list \<Rightarrow> error + nat list list \<Rightarrow> bool" where
  "adds n d pm res =
     (case res of
        Inl e \<Rightarrow> False
      | Inr pm' \<Rightarrow> square n pm' \<and> (\<forall>r<n. \<forall>c<n. pm' ! r ! c = pm ! r ! c + d r c))"

text \<open>What \<open>bump_cell\<close> at \<open>rc\<close> adds to the cell \<open>(r, c)\<close>.\<close>

definition cell_hit :: "board \<Rightarrow> coord \<Rightarrow> nat \<Rightarrow> nat \<Rightarrow> nat" where
  "cell_hit g rc r c = (if rc = (int r, int c) \<and> \<not> attacked (g ! r ! c) then 1 else 0)"

section \<open>Two concrete games\<close>

text \<open>
  A game on the 8 by 8 board with the usual fleet. The human's Carrier lies on row 3,
  columns 1 to 5.
\<close>

definition standard_config :: config where
  "standard_config =
     \<lparr>BOARD_SIZE = 8,
      SHIP_TYPES = [(''Carrier'', 5), (''Battleship'', 4), (''Cruiser'', 3),
                    (''Submarine'', 3), (''Destroyer'', 2)]\<rparr>"

definition human_fleet :: base_player where
  "human_fleet =
     (HumanPlayer_init standard_config)
       \<lparr>ship_manager :=
          deploy_all
            [(''Carrier'', 5, 3, 1, ''H''), (''Battleship'', 4, 0, 0, ''H''),
             (''Cruiser'', 3, 5, 0, ''H''), (''Submarine'', 3, 6, 0, ''H''),
             (''Destroyer'', 2, 7, 0, ''H'')]
            (ship_manager (HumanPlayer_init standard_config))\<rparr>"

definition human_grid :: board where
  "human_grid =
     [[''X'', ''X'', ''X'', ''X'', '' '', '' '', '' '', '' ''],
      ['' '', '' '', '' '', '' '', '' '', '' '', '' '', '' ''],
      ['' '', '' '', '' '', '' '', '' '', '' '', '' '', '' ''],
      ['' '', ''X'', ''X'', ''X'', ''X'', ''X'', '' '', '' ''],
      ['' '', '' '', '' '', '' '', '' '', '' '', '' '', '' ''],
      [''X'', ''X'', ''X'', '' '', '' '', '' '', '' '', '' ''],
      [''X'', ''X'', ''X'', '' '', '' '', '' '', '' '', '' ''],
      [''X'', ''X'', '' '', '' '', '' '', '' '', '' '', '' '']]"

definition first_map :: "nat list list" where
  "first_map =
     [[11, 16, 20, 22, 22, 20, 16, 11],
      [16, 21, 25, 27, 27, 25, 21, 16],
      [20, 25, 29, 31, 31, 29, 25, 20],
      [22, 27, 31, 33, 33, 31, 27, 22],
      [22, 27, 31, 33, 33, 31, 27, 22],
      [20, 25, 29, 31, 31, 29, 25, 20],
      [16, 21, 25, 27, 27, 25, 21, 16],
      [11, 16, 20, 22, 22, 20, 16, 11]]"

text \<open>The players after four turns of the computer: (3,3), (3,4), (3,2) and (3,5), all hits.\<close>

definition computer_after_4 :: computer_player where
  "computer_after_4 =
     (ComputerPlayer_init standard_config)
       \<lparr>attack_board :=
          (ShipManager_init 8 ''Player'')
            \<lparr>grid := (replicate 8 (replicate 8 '' ''))
                [3 := ['' '', '' '', ''X'', ''X'', ''X'', ''X'', '' '', '' '']]\<rparr>,
        last_hit := Some (3, 5),
        hit_stack := [(3, 1), (3, 5), (3, 1), (3, 6)],
        direction := Some ''H'',
        probability_map := first_map\<rparr>"

definition human_after_4 :: base_player where
  "human_after_4 =
     (HumanPlayer_init standard_config)
       \<lparr>ship_manager :=
          \<lparr>grid = human_grid,
           ship_locations =
             [(''Carrier'', [(3, 1)]),
              (''Battleship'', [(0, 0), (0, 1), (0, 2), (0, 3)]),
              (''Cruiser'', [(5, 0), (5, 1), (5, 2)]),
              (''Submarine'', [(6, 0), (6, 1), (6, 2)]),
              (''Destroyer'', [(7, 0), (7, 1)])],
           opponent = ''Computer''\<rparr>\<rparr>"

text \<open>The players after the fifth turn, the hit on (3,1) that sinks the Carrier.\<close>

definition computer_after_5 :: computer_player where
  "computer_after_5 =
     (ComputerPlayer_init standard_config)
       \<lparr>attack_board :=
          (ShipManager_init 8 ''Player'')
            \<lparr>grid := (replicate 8 (replicate 8 '' ''))
                [3 := ['' '', ''X'', ''X'', ''X'', ''X'', ''X'', '' '', '' '']]\<rparr>,
        last_hit := Some (3, 1),
        hit_stack := [(3, 5), (3, 1), (3, 6), (3, 0), (3, 6)],
        direction := Some ''H'',
        probability_map := first_map\<rparr>"

definition human_after_5 :: base_player where
  "human_after_5 =
     (HumanPlayer_init standard_config)
       \<lparr>ship_manager :=
          \<lparr>grid = human_grid,
           ship_locations =
             [(''Battleship'', [(0, 0), (0, 1), (0, 2), (0, 3)]),
              (''Cruiser'', [(5, 0), (5, 1), (5, 2)]),
              (''Submarine'', [(6, 0), (6, 1), (6, 2)]),
              (''Destroyer'', [(7, 0), (7, 1)])],
           opponent = ''Computer''\<rparr>\<rparr>"

text \<open>
  A game on a 2 by 2 board with a Destroyer of length 2 on row 0 and a Patrol boat of length 1
  at (1,1).
\<close>

definition small_config :: config where
  "small_config = \<lparr>BOARD_SIZE = 2, SHIP_TYPES = [(''Destroyer'', 2), (''Patrol'', 1)]\<rparr>"

definition small_human :: base_player where
  "small_human =
     (HumanPlayer_init small_config)
       \<lparr>ship_manager :=
          deploy_all [(''Destroyer'', 2, 0, 0, ''H''), (''Patrol'', 1, 1, 1, ''H'')]
            (ship_manager (HumanPlayer_init small_config))\<rparr>"

text \<open>The players after the computer's hits on (0,0) and (0,1), which sink the Destroyer.\<close>

definition small_computer_after_2 :: computer_player where
  "small_computer_after_2 =
     (ComputerPlayer_init small_config)
       \<lparr>attack_board :=
          (ShipManager_init 2 ''Player'')\<lparr>grid := [[''X'', ''X''], ['' '', '' '']]\<rparr>,
        last_hit := Some (0, 1),
        hit_stack := [],
        direction := Some ''H'',
        probability_map := [[5, 5], [5, 5]]\<rparr>"

definition small_human_after_2 :: base_player where
  "small_human_after_2 =
     (HumanPlayer_init small_config)
       \<lparr>ship_manager :=
          \<lparr>grid = [[''X'', ''X''], ['' '', ''X'']],
           ship_locations = [(''Patrol'', [(1, 1)])],
           opponent = ''Computer''\<rparr>\<rparr>"

text \<open>The same computer player with its hunt state cleared.\<close>

definition small_reset :: computer_player where
  "small_reset = small_computer_after_2\<lparr>last_hit := None, direction := None, hit_stack := []\<rparr>"

text \<open>The computer after its third turn of the small game, a miss on (1,0).\<close>

definition small_computer_after_3 :: computer_player where
  "small_computer_after_3 =
     small_reset
       \<lparr>attack_board :=
          (ShipManager_init 2 ''Player'')\<lparr>grid := [[''X'', ''X''], [''-'', '' '']]\<rparr>,
        probability_map := [[0, 0], [4, 4]]\<rparr>"

text \<open>
  The small game with the human's Patrol boat at (1,0) instead: the human's fleet, the human
  after the computer's first two turns, and the computer after its third turn, a hit on
  (1,0).
\<close>

definition patrol_human :: base_player where
  "patrol_human =
     (HumanPlayer_init small_config)
       \<lparr>ship_manager :=
          deploy_all [(''Destroyer'', 2, 0, 0, ''H''), (''Patrol'', 1, 1, 0, ''H'')]
            (ship_manager (HumanPlayer_init small_config))\<rparr>"

definition patrol_human_after_2 :: base_player where
  "patrol_human_after_2 =
     (HumanPlayer_init small_config)
       \<lparr>ship_manager :=
          \<lparr>grid = [[''X'', ''X''], [''X'', '' '']],
           ship_locations = [(''Patrol'', [(1, 0)])],
           opponent = ''Computer''\<rparr>\<rparr>"

definition patrol_computer_after_3 :: computer_player where
  "patrol_computer_after_3 =
     small_reset
       \<lparr>attack_board :=
          (ShipManager_init 2 ''Player'')\<lparr>grid := [[''X'', ''X''], [''X'', '' '']]\<rparr>,
        last_hit := Some (1, 0),
        probability_map := [[0, 0], [4, 4]]\<rparr>"

text \<open>The unit tests' fleet: a Destroyer on (0,0) and (0,1) of the 8 by 8 board.\<close>

definition destroyer_deployed :: ship_manager where
  "destroyer_deployed =
     snd (deploy_ship ''Destroyer'' 2 0 0 ''H'' (ShipManager_init 8 ''Player''))"

text \<open>Two ships deployed across each other, which \<open>deploy_ship\<close> itself does not prevent.\<close>

definition crossing_ships :: ship_manager where
  "crossing_ships =
     deploy_all [(''A'', 2, 0, 0, ''H''), (''B'', 2, 0, 0, ''V'')] (ShipManager_init 2 ''Player'')"

section \<open>Indexing within and out of range\<close>

lemma getitem_in_range:
  "0 \<le> i \<Longrightarrow> i < int (length xs) \<Longrightarrow> getitem xs i = Inr (xs ! nat i)"
  by (simp add: getitem_def py_index_def)

lemma setitem_in_range:
  "0 \<le> i \<Longrightarrow> i < int (length xs) \<Longrightarrow> setitem xs i v = Inr (xs[nat i := v])"
  by (simp add: setitem_def py_index_def)

lemma getitem_out_of_range:
  "i < - int (length xs) \<or> int (length xs) \<le> i \<Longrightarrow> getitem xs i = Inl IndexError"
  by (auto simp: getitem_def py_index_def Let_def)

lemma getitem_error: "getitem xs i = Inl e \<Longrightarrow> e = IndexError"
  by (auto simp: getitem_def py_index_def Let_def split: if_splits)

lemma getitem_some:
  "getitem xs i = Inr x \<Longrightarrow> x \<in> set xs"
  by (auto simp: getitem_def py_index_def Let_def split: if_splits)

lemma grid_get_in_range:
  "0 \<le> r \<Longrightarrow> r < int (length g) \<Longrightarrow> 0 \<le> c \<Longrightarrow> c < int (length (g ! nat r)) \<Longrightarrow>
   grid_get g r c = Inr (g ! nat r ! nat c)"
  by (simp add: grid_get_def getitem_in_range)

lemma grid_set_in_range:
  "0 \<le> r \<Longrightarrow> r < int (length g) \<Longrightarrow> 0 \<le> c \<Longrightarrow> c < int (length (g ! nat r)) \<Longrightarrow>
   grid_set g r c v = Inr (g[nat r := (g ! nat r)[nat c := v]])"
  by (simp add: grid_set_def getitem_in_range setitem_in_range)

lemma grid_get_error: "grid_get g r c = Inl e \<Longrightarrow> e = IndexError"
  by (auto simp: grid_get_def split: sum.splits dest: getitem_error)

lemma square_nth: "square n g \<Longrightarrow> i < n \<Longrightarrow> length (g ! i) = n"
  by (simp add: square_def list_all_length)

lemma square_length: "square n g \<Longrightarrow> length g = n"
  by (simp add: square_def)

lemma square_update:
  "square n g \<Longrightarrow> length rw = n \<Longrightarrow> square n (g[i := rw])"
proof -
  assume a: "square n g" "length rw = n"
  have "length (g[i := rw] ! k) = n" if "k < n" for k
    using a that by (cases "k = i") (auto simp: square_def list_all_length)
  then show ?thesis using a by (simp add: square_def list_all_length)
qed

lemma square_get:
  "square n g \<Longrightarrow> on_board n rc \<Longrightarrow> grid_get g (fst rc) (snd rc) = Inr (g ! nat (fst rc) ! nat (snd rc))"
proof -
  assume sq: "square n g" and ob: "on_board n rc"
  have "nat (fst rc) < n" using ob by (auto simp: on_board_def)
  then have "length (g ! nat (fst rc)) = n" using sq square_nth by blast
  then show ?thesis
    using ob sq by (intro grid_get_in_range) (auto simp: on_board_def square_length)
qed

lemma square_set:
  "square n g \<Longrightarrow> on_board n rc \<Longrightarrow>
   grid_set g (fst rc) (snd rc) v =
     Inr (g[nat (fst rc) := (g ! nat (fst rc))[nat (snd rc) := v]])"
proof -
  assume sq: "square n g" and ob: "on_board n rc"
  have "nat (fst rc) < n" using ob by (auto simp: on_board_def)
  then have "length (g ! nat (fst rc)) = n" using sq square_nth by blast
  then show ?thesis
    using ob sq by (intro grid_set_in_range) (auto simp: on_board_def square_length)
qed

lemma square_cell_update:
  "square n g \<Longrightarrow> square n (g[i := (g ! i)[j := v]])"
proof (cases "i < n")
  case True
  assume "square n g"
  then show ?thesis using True by (simp add: square_update square_nth)
next
  case False
  assume "square n g"
  then show ?thesis using False by (simp add: square_def list_update_beyond)
qed

lemma cell_update_nth:
  "square n g \<Longrightarrow> r < n \<Longrightarrow> c < n \<Longrightarrow>
   g[i := (g ! i)[j := v]] ! r ! c = (if r = i \<and> c = j then v else g ! r ! c)"
proof (cases "r = i")
  case True
  assume "square n g" "r < n" "c < n"
  then show ?thesis
    using True by (auto simp: square_def list_all_length nth_list_update)
next
  case False
  then show ?thesis by simp
qed

lemma grid_get_out_of_range:
  assumes "square n g"
    and "r < - int n \<or> int n \<le> r \<or> c < - int n \<or> int n \<le> c"
  shows "grid_get g r c = Inl IndexError"
proof (cases "getitem g r")
  case (Inl e)
  then show ?thesis by (auto simp: grid_get_def dest: getitem_error)
next
  case (Inr rw)
  then have "rw \<in> set g" by (rule getitem_some)
  then have len: "length rw = n"
    using assms(1) by (simp add: square_def list_all_iff)
  have "\<not> (r < - int n \<or> int n \<le> r)"
    using Inr assms(1) getitem_out_of_range [of r g] by (auto simp: square_def)
  then have "c < - int n \<or> int n \<le> c" using assms(2) by blast
  then show ?thesis
    using Inr len by (simp add: grid_get_def getitem_out_of_range)
qed

section \<open>The fleet of a ShipManager\<close>

lemma entries_nonempty_setdefault_append:
  "entries_nonempty fl \<Longrightarrow> entries_nonempty (setdefault_append ship pos fl)"
  by (induction fl) (auto simp: entries_nonempty_def)

lemma entries_nonempty_deploy_cells:
  "entries_nonempty (ship_locations sm) \<Longrightarrow> deploy_cells ship cs sm = (e, sm')
     \<Longrightarrow> entries_nonempty (ship_locations sm')"
proof (induction cs arbitrary: sm)
  case Nil
  then show ?case by simp
next
  case (Cons rc cs)
  obtain r c where rc: "rc = (r, c)" by (cases rc)
  show ?case
  proof (cases "grid_set (grid sm) r c ''X''")
    case (Inl err)
    with Cons.prems rc show ?thesis by simp
  next
    case (Inr g)
    with Cons.prems rc Cons.IH [of "sm\<lparr>grid := g,
                ship_locations := setdefault_append ship (r, c) (ship_locations sm)\<rparr>"]
    show ?thesis by (simp add: entries_nonempty_setdefault_append)
  qed
qed

lemma entries_nonempty_sunk_scan:
  "entries_nonempty fl \<Longrightarrow> entries_nonempty (sunk_scan p fl)"
  by (induction fl) (auto simp: entries_nonempty_def)

lemma reachable_entries_nonempty:
  "reachable_sm sm \<Longrightarrow> entries_nonempty (ship_locations sm)"
proof (induction rule: reachable_sm.induct)
  case (constructed n opp)
  show ?case by (simp add: ShipManager_init_def entries_nonempty_def)
next
  case (deployed sm ship len row column orientation e sm')
  then show ?case
    by (auto simp: deploy_ship_def dest: entries_nonempty_deploy_cells)
next
  case (checked sm row column)
  then show ?case by (simp add: check_sunk_ship_def entries_nonempty_sunk_scan)
next
  case (grid_written sm g)
  then show ?case by simp
qed

lemma all_ships_sunk_iff_all_empty:
  "all_ships_sunk sm \<longleftrightarrow> (\<forall>(ship, positions) \<in> set (ship_locations sm). positions = [])"
  by (simp add: all_ships_sunk_def list_all_iff)

lemma sunk_scan_no_match:
  "\<forall>(ship, positions) \<in> set fl. p \<notin> set positions \<Longrightarrow> sunk_scan p fl = fl"
  by (induction fl) auto

lemma sunk_scan_first_match:
  "\<forall>(s, ps) \<in> set xs. p \<notin> set ps \<Longrightarrow> p \<in> set positions \<Longrightarrow>
   sunk_scan p (xs @ (ship, positions) # ys) =
     xs @ (if remove1 p positions = [] then ys
           else (ship, remove1 p positions) # sunk_scan p ys)"
  by (induction xs) auto

section \<open>Deploying along a row\<close>

lemma length_mark_row [simp]: "length (mark_row js rw) = length rw"
  unfolding mark_row_def by (induction js arbitrary: rw) auto

lemma mark_row_nth:
  "k < length rw \<Longrightarrow> \<forall>j\<in>set js. 0 \<le> j \<Longrightarrow>
   mark_row js rw ! k = (if int k \<in> set js then ''X'' else rw ! k)"
  unfolding mark_row_def
proof (induction js arbitrary: rw)
  case Nil
  then show ?case by simp
next
  case (Cons j js)
  then show ?case by (auto simp: nth_list_update)
qed

lemma deploy_cells_row:
  "0 \<le> r \<Longrightarrow> r < int (length (grid sm)) \<Longrightarrow>
   \<forall>j\<in>set js. 0 \<le> j \<and> j < int (length (grid sm ! nat r)) \<Longrightarrow>
   deploy_cells ship (map (\<lambda>j. (r, j)) js) sm =
     (None, sm\<lparr>grid := (grid sm)[nat r := mark_row js (grid sm ! nat r)],
               ship_locations := fold (\<lambda>j. setdefault_append ship (r, j)) js (ship_locations sm)\<rparr>)"
proof (induction js arbitrary: sm)
  case Nil
  then show ?case by (simp add: mark_row_def)
next
  case (Cons j js)
  let ?g = "(grid sm)[nat r := (grid sm ! nat r)[nat j := ''X'']]"
  let ?sm = "sm\<lparr>grid := ?g, ship_locations := setdefault_append ship (r, j) (ship_locations sm)\<rparr>"
  have set: "grid_set (grid sm) r j ''X'' = Inr ?g"
    using Cons.prems by (simp add: grid_set_in_range)
  have in_range: "nat r < length (grid sm)"
    using Cons.prems by simp
  have row: "grid ?sm ! nat r = (grid sm ! nat r)[nat j := ''X'']"
    using in_range by simp
  have "deploy_cells ship (map (\<lambda>j. (r, j)) js) ?sm =
     (None, ?sm\<lparr>grid := (grid ?sm)[nat r := mark_row js (grid ?sm ! nat r)],
               ship_locations := fold (\<lambda>j. setdefault_append ship (r, j)) js (ship_locations ?sm)\<rparr>)"
    using Cons.prems by (intro Cons.IH) (simp_all add: row)
  then show ?case
    using set in_range by (simp add: mark_row_def)
qed

lemma map_of_setdefault_append:
  "map_of (setdefault_append ship pos fl) =
     (map_of fl)(ship \<mapsto> positions_of fl ship @ [pos])"
  by (induction fl) (auto simp: positions_of_def fun_eq_iff)

lemma map_of_fold_setdefault_append:
  "js \<noteq> [] \<Longrightarrow> map_of (fold (\<lambda>j. setdefault_append ship (f j)) js fl) =
     (map_of fl)(ship \<mapsto> positions_of fl ship @ map f js)"
proof (induction js arbitrary: fl)
  case Nil
  then show ?case by simp
next
  case (Cons j js)
  show ?case
  proof (cases "js = []")
    case True
    then show ?thesis by (simp add: map_of_setdefault_append)
  next
    case False
    then show ?thesis
      by (simp add: Cons.IH map_of_setdefault_append positions_of_def fun_eq_iff)
  qed
qed

section \<open>Reading a run that leaves the board\<close>

lemma any_ship_cell_raises:
  "\<exists>(r, c) \<in> set cs. grid_get g r c = Inl IndexError \<Longrightarrow>
   any_ship_cell g cs = Inr True \<or> any_ship_cell g cs = Inl IndexError"
proof (induction cs)
  case Nil
  then show ?case by simp
next
  case (Cons rc cs)
  obtain r c where rc: "rc = (r, c)" by (cases rc)
  show ?case
  proof (cases "grid_get g r c")
    case (Inl e)
    then show ?thesis using rc by (auto dest: grid_get_error)
  next
    case (Inr v)
    then show ?thesis using rc Cons by auto
  qed
qed

lemma run_cells_past_edge:
  assumes "1 \<le> len" "0 \<le> row" "0 \<le> column"
    and "if orientation = ''H'' then int n \<le> row \<or> int n < column + len
         else int n \<le> column \<or> int n < row + len"
  shows "\<exists>(r, c) \<in> set (run_cells row column orientation len).
           r < - int n \<or> int n \<le> r \<or> c < - int n \<or> int n \<le> c"
proof (cases "orientation = ''H''")
  case True
  then have "(row, column + len - 1) \<in> set (run_cells row column orientation len)"
    using assms by (auto simp: run_cells_def py_range_def)
  moreover have "int n \<le> row \<or> int n \<le> column + len - 1"
    using assms True by auto
  ultimately show ?thesis by blast
next
  case False
  then have "(row + len - 1, column) \<in> set (run_cells row column orientation len)"
    using assms by (auto simp: run_cells_def py_range_def)
  moreover have "int n \<le> column \<or> int n \<le> row + len - 1"
    using assms False by auto
  ultimately show ?thesis by blast
qed

section \<open>Iterations that add to the probability map\<close>

lemma for_each_adds:
  assumes "square n pm"
    and "\<And>x pm. x \<in> set xs \<Longrightarrow> square n pm \<Longrightarrow> adds n (d x) pm (body x pm)"
  shows "adds n (\<lambda>r c. \<Sum>x\<leftarrow>xs. d x r c) pm (for_each body xs pm)"
  using assms
proof (induction xs arbitrary: pm)
  case Nil
  then show ?case by (simp add: adds_def)
next
  case (Cons x xs)
  from Cons.prems have "adds n (d x) pm (body x pm)" by simp
  then obtain pm1 where pm1: "body x pm = Inr pm1" "square n pm1"
    "\<forall>r<n. \<forall>c<n. pm1 ! r ! c = pm ! r ! c + d x r c"
    by (auto simp: adds_def split: sum.splits)
  have "adds n (\<lambda>r c. \<Sum>x\<leftarrow>xs. d x r c) pm1 (for_each body xs pm1)"
    using pm1(2) Cons.prems(2) by (intro Cons.IH) simp_all
  then show ?case
    using pm1 by (auto simp: adds_def split: sum.splits)
qed

lemma adds_then:
  assumes "adds n d1 pm (Inr pm1)" "adds n d2 pm1 res"
  shows "adds n (\<lambda>r c. d1 r c + d2 r c) pm res"
  using assms by (auto simp: adds_def split: sum.splits)

lemma adds_cong:
  assumes "adds n d pm res" "\<And>r c. r < n \<Longrightarrow> c < n \<Longrightarrow> d r c = d' r c"
  shows "adds n d' pm res"
  using assms by (auto simp: adds_def split: sum.splits)

lemma adds_result:
  assumes "adds n d pm res"
  obtains pm' where "res = Inr pm'" "adds n d pm (Inr pm')" "square n pm'"
  using assms by (cases res) (auto simp: adds_def)

lemma bump_cell_adds:
  assumes "square n g" "square n pm" "on_board n rc"
  shows "adds n (cell_hit g rc) pm (bump_cell g rc pm)"
proof (cases "attacked (g ! nat (fst rc) ! nat (snd rc))")
  case True
  then have "bump_cell g rc pm = Inr pm"
    using assms by (simp add: bump_cell_def square_get)
  moreover have "cell_hit g rc r c = 0" for r c
    using True by (auto simp: cell_hit_def)
  ultimately show ?thesis using assms by (simp add: adds_def)
next
  case False
  let ?i = "nat (fst rc)" and ?j = "nat (snd rc)"
  let ?pm = "pm[?i := (pm ! ?i)[?j := pm ! ?i ! ?j + 1]]"
  have eq: "bump_cell g rc pm = Inr ?pm"
    using assms False by (simp add: bump_cell_def square_get square_set)
  have rc: "rc = (int ?i, int ?j)" "?i < n" "?j < n"
    using assms(3) by (auto simp: on_board_def prod_eq_iff)
  have "?pm ! r ! c = pm ! r ! c + cell_hit g rc r c" if "r < n" "c < n" for r c
  proof -
    have "rc = (int r, int c) \<longleftrightarrow> r = ?i \<and> c = ?j"
      using rc by (metis nat_int prod.inject)
    then show ?thesis
      using that False assms(2) by (auto simp: cell_update_nth cell_hit_def)
  qed
  then show ?thesis
    using eq assms(2) by (simp add: adds_def square_cell_update)
qed

lemma sum_cell_hit:
  "distinct cs \<Longrightarrow>
   (\<Sum>cell\<leftarrow>cs. cell_hit g cell r c) =
     (if (int r, int c) \<in> set cs \<and> \<not> attacked (g ! r ! c) then 1 else 0)"
  by (induction cs) (auto simp: cell_hit_def)

lemma distinct_placement_cells: "distinct (placement_cells row col len orientation)"
  by (auto simp: placement_cells_def py_range_def distinct_map inj_on_def)

section \<open>Placement tests\<close>

lemma no_attacked_cell_on_board:
  "square n g \<Longrightarrow> list_all (on_board n) cs \<Longrightarrow>
   no_attacked_cell g cs = Inr (list_all (\<lambda>rc. \<not> attacked (g ! nat (fst rc) ! nat (snd rc))) cs)"
proof (induction cs)
  case Nil
  then show ?case by simp
next
  case (Cons rc cs)
  obtain r c where rc: "rc = (r, c)" by (cases rc)
  have "grid_get g r c = Inr (g ! nat r ! nat c)"
    using Cons.prems rc square_get [of n g rc] by simp
  then show ?case using Cons rc by simp
qed

lemma placement_cells_on_board:
  assumes "on_board n (row, col)"
    and "if orientation = ''H'' then col + len \<le> int n else row + len \<le> int n"
  shows "list_all (on_board n) (placement_cells row col len orientation)"
  using assms by (auto simp: placement_cells_def on_board_def py_range_def list_all_iff)

lemma can_place_ship_fits:
  assumes "square n (grid (attack_board self))" "BOARD_SIZE cfg = int n" "on_board n (row, col)"
  shows "can_place_ship cfg self opp row col len orientation =
           Inr (fits n (grid (attack_board self)) row col len orientation)"
proof (cases "if orientation = ''H'' then col + len \<le> int n else row + len \<le> int n")
  case True
  then have "list_all (on_board n) (placement_cells row col len orientation)"
    using assms(3) by (rule placement_cells_on_board [rotated])
  then show ?thesis
    using True assms(1,2) 
    by (auto simp: can_place_ship_def fits_def no_attacked_cell_on_board split: if_splits)
next
  case False
  then show ?thesis
    using assms(2) by (auto simp: can_place_ship_def fits_def split: if_splits)
qed

lemma fits_not_attacked:
  assumes "fits n g row col len orientation"
    and "(int r, int c) \<in> set (placement_cells row col len orientation)"
  shows "\<not> attacked (g ! r ! c)"
  using assms by (force simp: fits_def list_all_iff)

lemma board_cells_on_board:
  "BOARD_SIZE cfg = int n \<Longrightarrow> rc \<in> set (board_cells cfg) \<longleftrightarrow> on_board n rc"
proof -
  assume n: "BOARD_SIZE cfg = int n"
  obtain r c where rc: "rc = (r, c)" by (cases rc)
  show ?thesis
    using n unfolding rc by (auto simp: board_cells_def py_range_def on_board_def image_iff)
qed

section \<open>The two passes of the probability map\<close>

lemma count_placement_adds:
  assumes sq: "square n (grid (attack_board self))" and n: "BOARD_SIZE cfg = int n"
    and pm: "square n pm" and rc: "on_board n rc"
  shows "adds n (\<lambda>r c. if covers n (grid (attack_board self)) len orientation r c rc then 1 else 0)
           pm (count_placement cfg self opp (fst rc) (snd rc) len orientation pm)"
proof -
  let ?g = "grid (attack_board self)"
  let ?cells = "placement_cells (fst rc) (snd rc) len orientation"
  have can: "can_place_ship cfg self opp (fst rc) (snd rc) len orientation =
               Inr (fits n ?g (fst rc) (snd rc) len orientation)"
    using sq n rc by (intro can_place_ship_fits) simp_all
  show ?thesis
  proof (cases "fits n ?g (fst rc) (snd rc) len orientation")
    case True
    then have "list_all (on_board n) ?cells"
      using rc by (intro placement_cells_on_board) (auto simp: fits_def)
    then have "adds n (\<lambda>r c. \<Sum>cell\<leftarrow>?cells. cell_hit ?g cell r c) pm
                 (for_each (bump_cell ?g) ?cells pm)"
      using sq pm by (intro for_each_adds bump_cell_adds) (auto simp: list_all_iff)
    then have "adds n (\<lambda>r c. if covers n ?g len orientation r c rc then 1 else 0) pm
                 (for_each (bump_cell ?g) ?cells pm)"
    proof (rule adds_cong)
      fix r c
      show "(\<Sum>cell\<leftarrow>?cells. cell_hit ?g cell r c) =
              (if covers n ?g len orientation r c rc then 1 else 0)"
        using True fits_not_attacked [OF True, of r c]
        by (auto simp: sum_cell_hit distinct_placement_cells covers_def)
    qed
    then show ?thesis
      using can True by (simp add: count_placement_def)
  next
    case False
    then show ?thesis
      using can pm by (simp add: count_placement_def adds_def covers_def)
  qed
qed

lemma count_at_adds:
  assumes sq: "square n (grid (attack_board self))" and n: "BOARD_SIZE cfg = int n"
    and pm: "square n pm" and rc: "on_board n rc"
  shows "adds n (\<lambda>r c. (if covers n (grid (attack_board self)) len ''H'' r c rc then 1 else 0) +
                       (if covers n (grid (attack_board self)) len ''V'' r c rc then 1 else 0))
           pm (count_at cfg self opp len rc pm)"
proof -
  let ?g = "grid (attack_board self)"
  have "adds n (\<lambda>r c. if covers n ?g len ''H'' r c rc then 1 else 0)
           pm (count_placement cfg self opp (fst rc) (snd rc) len ''H'' pm)"
    using assms by (rule count_placement_adds)
  then obtain pm1 where pm1: "count_placement cfg self opp (fst rc) (snd rc) len ''H'' pm = Inr pm1"
      "adds n (\<lambda>r c. if covers n ?g len ''H'' r c rc then 1 else 0) pm (Inr pm1)" "square n pm1"
    by (rule adds_result)
  have "adds n (\<lambda>r c. if covers n ?g len ''V'' r c rc then 1 else 0)
           pm1 (count_placement cfg self opp (fst rc) (snd rc) len ''V'' pm1)"
    using sq n pm1(3) rc by (rule count_placement_adds)
  with pm1(2) have "adds n (\<lambda>r c. (if covers n ?g len ''H'' r c rc then 1 else 0) +
                       (if covers n ?g len ''V'' r c rc then 1 else 0))
           pm (count_placement cfg self opp (fst rc) (snd rc) len ''V'' pm1)"
    by (rule adds_then)
  then show ?thesis
    using pm1(1) by (simp add: count_at_def)
qed

lemma sum_indicators:
  "(\<Sum>x\<leftarrow>xs. (if P x then 1 else 0) + (if Q x then 1 else 0)) =
     length (filter P xs) + length (filter Q xs)"
  by (induction xs) auto

lemma count_ship_adds:
  assumes sq: "square n (grid (attack_board self))" and n: "BOARD_SIZE cfg = int n"
    and pm: "square n pm"
  shows "adds n (placements_through cfg (grid (attack_board self)) len)
           pm (for_each (count_at cfg self opp len) (board_cells cfg) pm)"
proof -
  let ?g = "grid (attack_board self)"
  have "adds n (\<lambda>r c. \<Sum>rc\<leftarrow>board_cells cfg.
                  (if covers n ?g len ''H'' r c rc then 1 else 0) +
                  (if covers n ?g len ''V'' r c rc then 1 else 0))
          pm (for_each (count_at cfg self opp len) (board_cells cfg) pm)"
    using pm
  proof (rule for_each_adds)
    fix rc and pm' :: "nat list list"
    assume "rc \<in> set (board_cells cfg)" "square n pm'"
    then show "adds n (\<lambda>r c. (if covers n ?g len ''H'' r c rc then 1 else 0) +
                       (if covers n ?g len ''V'' r c rc then 1 else 0))
           pm' (count_at cfg self opp len rc pm')"
      using sq n by (intro count_at_adds) (simp_all add: board_cells_on_board)
  qed
  then show ?thesis
    by (rule adds_cong) (simp add: n sum_indicators placements_through_def)
qed

lemma second_pass_adds:
  assumes sq: "square n (grid (attack_board self))" and n: "BOARD_SIZE cfg = int n"
    and pm: "square n pm"
  shows "adds n (\<lambda>r c. \<Sum>ship_len\<leftarrow>(ships :: (string \<times> int) list). placements_through cfg (grid (attack_board self)) (snd ship_len) r c)
           pm (for_each (\<lambda>ship_len. for_each (count_at cfg self opp (snd ship_len)) (board_cells cfg))
                 ships pm)"
  using pm
proof (rule for_each_adds
    [where d = "\<lambda>ship_len. placements_through cfg (grid (attack_board self)) (snd ship_len)"])
  fix ship_len :: "string \<times> int" and pm' :: "nat list list"
  assume "ship_len \<in> set ships" and "square n pm'"
  then show "adds n (placements_through cfg (grid (attack_board self)) (snd ship_len)) pm'
     (for_each (count_at cfg self opp (snd ship_len)) (board_cells cfg) pm')"
    using sq n by (intro count_ship_adds)
qed

lemma first_pass:
  assumes sq: "square n g" and pm: "square n pm" and cs: "list_all (on_board n) cs"
  shows "\<exists>pm'. for_each (init_weight g) cs pm = Inr pm' \<and> square n pm' \<and>
           (\<forall>r<n. \<forall>c<n. pm' ! r ! c =
              (if (int r, int c) \<in> set cs then (if attacked (g ! r ! c) then 0 else 1)
               else pm ! r ! c))"
  using pm cs
proof (induction cs arbitrary: pm)
  case Nil
  then show ?case by simp
next
  case (Cons rc cs)
  let ?i = "nat (fst rc)" and ?j = "nat (snd rc)"
  let ?w = "if attacked (g ! ?i ! ?j) then 0 else 1 :: nat"
  let ?pm = "pm[?i := (pm ! ?i)[?j := ?w]]"
  have ob: "on_board n rc" using Cons.prems by simp
  have step: "init_weight g rc pm = Inr ?pm"
    using sq Cons.prems(1) ob by (simp add: init_weight_def square_get square_set)
  have sq1: "square n ?pm"
    using Cons.prems(1) by (rule square_cell_update)
  obtain pm' where pm': "for_each (init_weight g) cs ?pm = Inr pm'" "square n pm'"
      "\<forall>r<n. \<forall>c<n. pm' ! r ! c =
              (if (int r, int c) \<in> set cs then (if attacked (g ! r ! c) then 0 else 1)
               else ?pm ! r ! c)"
    using Cons.IH [OF sq1] Cons.prems(2) by auto
  have rc: "rc = (int ?i, int ?j)"
    using ob by (auto simp: on_board_def prod_eq_iff)
  have "pm' ! r ! c =
              (if (int r, int c) \<in> set (rc # cs) then (if attacked (g ! r ! c) then 0 else 1)
               else pm ! r ! c)" if "r < n" "c < n" for r c
  proof -
    have "rc = (int r, int c) \<longleftrightarrow> r = ?i \<and> c = ?j"
      using rc by (metis nat_int prod.inject)
    then show ?thesis
      using that pm'(3) Cons.prems(1) by (auto simp: cell_update_nth)
  qed
  then show ?case
    using step pm'(1,2) by simp
qed

lemma square_fill: "square n pm \<Longrightarrow> square n (map (map (\<lambda>w. 0)) pm)"
  by (simp add: square_def list_all_iff)

lemma compute_probability_map_weights:
  assumes sq: "square n (grid (attack_board self))" and n: "BOARD_SIZE cfg = int n"
    and pm: "square n pm"
  shows "\<exists>pm'. compute_probability_map cfg self opp pm = Inr pm' \<and> square n pm' \<and>
           (\<forall>r<n. \<forall>c<n. pm' ! r ! c =
              (if attacked (grid (attack_board self) ! r ! c) then 0 else 1) +
              (\<Sum>ship_len\<leftarrow>SHIP_TYPES cfg.
                  placements_through cfg (grid (attack_board self)) (snd ship_len) r c))"
proof -
  let ?g = "grid (attack_board self)"
  have "list_all (on_board n) (board_cells cfg)"
    using n by (simp add: list_all_iff board_cells_on_board)
  with sq square_fill [OF pm]
  obtain pm1 where pm1: "for_each (init_weight ?g) (board_cells cfg) (map (map (\<lambda>w. 0)) pm) = Inr pm1"
      "square n pm1"
      "\<forall>r<n. \<forall>c<n. pm1 ! r ! c =
              (if (int r, int c) \<in> set (board_cells cfg) then (if attacked (?g ! r ! c) then 0 else 1)
               else map (map (\<lambda>w. 0)) pm ! r ! c)"
    using first_pass by blast
  have init: "pm1 ! r ! c = (if attacked (?g ! r ! c) then 0 else 1)" if "r < n" "c < n" for r c
  proof -
    have "(int r, int c) \<in> set (board_cells cfg)"
      using that n by (simp add: board_cells_on_board on_board_def)
    then show ?thesis using pm1(3) that by simp
  qed
  have "adds n (\<lambda>r c. \<Sum>ship_len\<leftarrow>SHIP_TYPES cfg. placements_through cfg ?g (snd ship_len) r c)
           pm1 (for_each (\<lambda>ship_len. for_each (count_at cfg self opp (snd ship_len)) (board_cells cfg))
                 (SHIP_TYPES cfg) pm1)"
    using sq n pm1(2) by (rule second_pass_adds)
  then show ?thesis
    using pm1(1) init by (auto simp: compute_probability_map_def adds_def split: sum.splits)
qed

lemma placements_through_attacked:
  "attacked (g ! r ! c) \<Longrightarrow> placements_through cfg g len r c = 0"
  by (auto simp: placements_through_def covers_def filter_empty_conv dest: fits_not_attacked)

section \<open>The first greatest entry\<close>

lemma first_max_from_scan:
  assumes "best < length pre" "pre ! best = bv"
    and "\<forall>j<length pre. pre ! j \<le> bv" "\<forall>j<best. pre ! j < bv"
  shows "first_max_from xs (length pre) best bv < length (pre @ xs) \<and>
         (\<forall>j<length (pre @ xs). (pre @ xs) ! j \<le> (pre @ xs) ! first_max_from xs (length pre) best bv) \<and>
         (\<forall>j<first_max_from xs (length pre) best bv.
             (pre @ xs) ! j < (pre @ xs) ! first_max_from xs (length pre) best bv)"
  using assms
proof (induction xs arbitrary: pre best bv)
  case Nil
  then show ?case by simp
next
  case (Cons x xs)
  show ?case
  proof (cases "bv < x")
    case True
    have "first_max_from xs (length (pre @ [x])) (length pre) x < length ((pre @ [x]) @ xs) \<and>
         (\<forall>j<length ((pre @ [x]) @ xs). ((pre @ [x]) @ xs) ! j \<le>
              ((pre @ [x]) @ xs) ! first_max_from xs (length (pre @ [x])) (length pre) x) \<and>
         (\<forall>j<first_max_from xs (length (pre @ [x])) (length pre) x.
             ((pre @ [x]) @ xs) ! j < ((pre @ [x]) @ xs) ! first_max_from xs (length (pre @ [x])) (length pre) x)"
    proof (rule Cons.IH)
      have below: "pre ! j < x" if "j < length pre" for j
        using Cons.prems(3) True that by (meson le_less_trans)
      show "\<forall>j<length (pre @ [x]). (pre @ [x]) ! j \<le> x"
        using below by (auto simp: nth_append less_Suc_eq less_imp_le)
      show "\<forall>j<length pre. (pre @ [x]) ! j < x"
        using below by (simp add: nth_append)
    qed simp_all
    then show ?thesis using True by simp
  next
    case False
    have "first_max_from xs (length (pre @ [x])) best bv < length ((pre @ [x]) @ xs) \<and>
         (\<forall>j<length ((pre @ [x]) @ xs). ((pre @ [x]) @ xs) ! j \<le>
              ((pre @ [x]) @ xs) ! first_max_from xs (length (pre @ [x])) best bv) \<and>
         (\<forall>j<first_max_from xs (length (pre @ [x])) best bv.
             ((pre @ [x]) @ xs) ! j < ((pre @ [x]) @ xs) ! first_max_from xs (length (pre @ [x])) best bv)"
    proof (rule Cons.IH)
      show "best < length (pre @ [x])" using Cons.prems(1) by simp
      show "(pre @ [x]) ! best = bv" using Cons.prems(1,2) by (simp add: nth_append)
      show "\<forall>j<length (pre @ [x]). (pre @ [x]) ! j \<le> bv"
        using Cons.prems(3) False by (auto simp: nth_append less_Suc_eq)
      show "\<forall>j<best. (pre @ [x]) ! j < bv"
        using Cons.prems(1,4) by (auto simp: nth_append)
    qed
    then show ?thesis using False by simp
  qed
qed

lemma np_argmax_first_max:
  assumes "concat a \<noteq> []"
  shows "\<exists>idx. np_argmax a = Inr idx \<and> idx < length (concat a) \<and>
           (\<forall>j<length (concat a). concat a ! j \<le> concat a ! idx) \<and>
           (\<forall>j<idx. concat a ! j < concat a ! idx)"
proof -
  obtain x xs where flat: "concat a = x # xs"
    using assms by (cases "concat a") auto
  have "first_max_from xs (length [x]) 0 x < length ([x] @ xs) \<and>
         (\<forall>j<length ([x] @ xs). ([x] @ xs) ! j \<le> ([x] @ xs) ! first_max_from xs (length [x]) 0 x) \<and>
         (\<forall>j<first_max_from xs (length [x]) 0 x.
             ([x] @ xs) ! j < ([x] @ xs) ! first_max_from xs (length [x]) 0 x)"
    by (rule first_max_from_scan) simp_all
  then show ?thesis
    by (simp add: np_argmax_def flat)
qed

lemma length_concat_rows:
  "list_all (\<lambda>rw. length rw = m) a \<Longrightarrow> length (concat a) = length a * m"
  by (induction a) auto

lemma concat_nth_rows:
  "list_all (\<lambda>rw. length rw = m) a \<Longrightarrow> r < length a \<Longrightarrow> c < m \<Longrightarrow>
   concat a ! (r * m + c) = a ! r ! c"
proof (induction a arbitrary: r)
  case Nil
  then show ?case by simp
next
  case (Cons rw a)
  show ?case
  proof (cases r)
    case 0
    then show ?thesis using Cons.prems by (simp add: nth_append)
  next
    case (Suc r')
    then show ?thesis using Cons by (simp add: nth_append)
  qed
qed

lemma argmax_cell:
  assumes sq: "square n pm" and pos: "0 < n"
  shows "\<exists>r c. r < n \<and> c < n \<and> np_argmax pm = Inr (r * n + c) \<and>
           np_unravel_index (r * n + c) pm = Inr (int r, int c) \<and>
           (\<forall>r'<n. \<forall>c'<n. pm ! r' ! c' \<le> pm ! r ! c) \<and>
           (\<forall>r'<n. \<forall>c'<n. pm ! r' ! c' = pm ! r ! c \<longrightarrow> r < r' \<or> (r = r' \<and> c \<le> c'))"
proof -
  have rows: "list_all (\<lambda>rw. length rw = n) pm" and len: "length pm = n"
    using sq by (simp_all add: square_def)
  have flat_len: "length (concat pm) = n * n"
    using rows len by (simp add: length_concat_rows)
  then have "length (concat pm) \<noteq> 0" using pos by simp
  then have "concat pm \<noteq> []" by (simp only: length_0_conv not_False_eq_True)
  then obtain idx where idx: "np_argmax pm = Inr idx" "idx < n * n"
      "\<forall>j<n * n. concat pm ! j \<le> concat pm ! idx"
      "\<forall>j<idx. concat pm ! j < concat pm ! idx"
    using np_argmax_first_max [of pm] flat_len by auto
  define r c where "r = idx div n" and "c = idx mod n"
  have rc: "r < n" "c < n" "idx = r * n + c"
    using idx(2) pos by (simp_all add: r_def c_def less_mult_imp_div_less)
  have cell: "concat pm ! (r' * n + c') = pm ! r' ! c'" if "r' < n" "c' < n" for r' c'
    using rows len that by (simp add: concat_nth_rows)
  have flat: "r' * n + c' < n * n" if "r' < n" "c' < n" for r' c'
  proof -
    have "r' * n + c' < r' * n + n" using that by simp
    also have "\<dots> = Suc r' * n" by simp
    also have "\<dots> \<le> n * n" using that by (metis Suc_leI mult_le_mono1)
    finally show ?thesis .
  qed
  have cols: "(case pm of [] \<Rightarrow> 0 | rw # _ \<Rightarrow> length rw) = n"
    using sq pos by (cases pm) (auto simp: square_def)
  have unravel: "np_unravel_index (r * n + c) pm = Inr (int r, int c)"
    using rc idx(2) len by (simp add: np_unravel_index_def cols mult.commute)
  have greatest: "pm ! r' ! c' \<le> pm ! r ! c" if "r' < n" "c' < n" for r' c'
    using idx(3) flat [OF that] cell [OF that] cell [OF rc(1,2)] rc(3) by auto
  have first: "r < r' \<or> (r = r' \<and> c \<le> c')"
    if "r' < n" "c' < n" "pm ! r' ! c' = pm ! r ! c" for r' c'
  proof (rule ccontr)
    assume "\<not> (r < r' \<or> (r = r' \<and> c \<le> c'))"
    then consider "r' < r" | "r' = r" "c' < c" by linarith
    then have "r' * n + c' < idx"
    proof cases
      case 1
      have "r' * n + c' < Suc r' * n" using that by simp
      also have "\<dots> \<le> r * n" using 1 by (metis Suc_leI mult_le_mono1)
      finally show ?thesis using rc(3) by simp
    next
      case 2
      then show ?thesis using rc(3) by simp
    qed
    then have "concat pm ! (r' * n + c') < concat pm ! idx"
      using idx(4) by blast
    then show False
      using cell [OF that(1,2)] cell [OF rc(1,2)] rc(3) that(3) by simp
  qed
  show ?thesis
    using rc idx(1) unravel greatest first by blast
qed

section \<open>Facts about the concrete fleets\<close>

lemma destroyer_deployed_reachable: "reachable_sm destroyer_deployed"
  unfolding destroyer_deployed_def
  by (rule reachable_sm.deployed [OF reachable_sm.constructed]) (rule surjective_pairing)

lemma destroyer_deployed_fleet:
  "ship_locations destroyer_deployed = [(''Destroyer'', [(0, 0), (0, 1)])]"
  by code_simp

lemma destroyer_hit_once:
  "ship_locations (check_sunk_ship 0 0 destroyer_deployed) = [(''Destroyer'', [(0, 1)])]"
  by code_simp

lemma destroyer_hit_twice:
  "ship_locations (check_sunk_ship 0 1 (check_sunk_ship 0 0 destroyer_deployed)) = []"
  by code_simp

section \<open>ShipManager: sunk fleets, deployment, hits\<close>

text \<open>
  C5. In every state that a ShipManager reaches through its constructor, \<open>deploy_ship\<close>,
  \<open>check_sunk_ship\<close> and writes to its grid, \<open>all_ships_sunk\<close> returns true if and only if
  \<open>ship_locations\<close> is empty. The method itself tests that every position list is empty;
  in a reachable state no entry has an empty list, since \<open>deploy_ship\<close> creates an entry
  only together with its first position and \<open>check_sunk_ship\<close> deletes an entry as soon as
  its list is empty.
\<close>

theorem all_ships_sunk_iff_empty:
  assumes "reachable_sm sm"
  shows "all_ships_sunk sm \<longleftrightarrow> ship_locations sm = []"
proof -
  have "entries_nonempty (ship_locations sm)"
    using assms by (rule reachable_entries_nonempty)
  then show ?thesis
    by (cases "ship_locations sm") (auto simp: all_ships_sunk_def entries_nonempty_def)
qed

theorem all_ships_sunk_iff_empty_witness:
  "reachable_sm (check_sunk_ship 0 0 destroyer_deployed) \<and>
   \<not> all_ships_sunk (check_sunk_ship 0 0 destroyer_deployed) \<and>
   reachable_sm (check_sunk_ship 0 1 (check_sunk_ship 0 0 destroyer_deployed)) \<and>
   all_ships_sunk (check_sunk_ship 0 1 (check_sunk_ship 0 0 destroyer_deployed))"
proof -
  have once: "reachable_sm (check_sunk_ship 0 0 destroyer_deployed)"
    by (rule reachable_sm.checked [OF destroyer_deployed_reachable])
  have twice: "reachable_sm (check_sunk_ship 0 1 (check_sunk_ship 0 0 destroyer_deployed))"
    by (rule reachable_sm.checked [OF once])
  show ?thesis
    using once twice all_ships_sunk_iff_empty [OF once] all_ships_sunk_iff_empty [OF twice]
    by (simp add: destroyer_hit_once destroyer_hit_twice)
qed

text \<open>
  C9. For a horizontal placement within the board (\<open>0 \<le> row < n\<close>, \<open>0 \<le> column\<close>,
  \<open>column + len \<le> n\<close>), \<open>deploy_ship\<close> returns without an exception, sets exactly the cells
  \<open>(row, column)\<close> to \<open>(row, column + len - 1)\<close> to \<open>"X"\<close> and leaves every other cell as it
  was; there are \<open>len\<close> such cells; these coordinates are appended, in order, to the ship's
  position list (a new list if the ship had none), and no other ship's list changes.
\<close>

theorem deploy_ship_horizontal:
  assumes sq: "square n (grid sm)"
    and row: "0 \<le> row" "row < int n"
    and col: "0 \<le> column" "column + len \<le> int n"
  shows "\<exists>sm'. deploy_ship ship len row column ''H'' sm = (None, sm') \<and>
     square n (grid sm') \<and>
     (\<forall>i<n. \<forall>j<n. grid sm' ! i ! j =
        (if int i = row \<and> column \<le> int j \<and> int j < column + len then ''X''
         else grid sm ! i ! j)) \<and>
     length (py_range column (column + len)) = nat len \<and>
     map_of (ship_locations sm') ship =
        (if len \<le> 0 then map_of (ship_locations sm) ship
         else Some (positions_of (ship_locations sm) ship @
                    map (\<lambda>i. (row, i)) (py_range column (column + len)))) \<and>
     (\<forall>k. k \<noteq> ship \<longrightarrow> map_of (ship_locations sm') k = map_of (ship_locations sm) k) \<and>
     opponent sm' = opponent sm"
proof -
  let ?js = "py_range column (column + len)"
  let ?sm' = "sm\<lparr>grid := (grid sm)[nat row := mark_row ?js (grid sm ! nat row)],
               ship_locations := fold (\<lambda>j. setdefault_append ship (row, j)) ?js (ship_locations sm)\<rparr>"
  have len_g: "length (grid sm) = n" and len_row: "length (grid sm ! nat row) = n"
    using sq row by (simp_all add: square_length square_nth)
  have js: "\<forall>j\<in>set ?js. 0 \<le> j \<and> j < int n"
    using col by (auto simp: py_range_def)
  have run: "deploy_ship ship len row column ''H'' sm = (None, ?sm')"
    unfolding deploy_ship_def run_cells_def
    using row js by (simp add: deploy_cells_row len_g len_row)
  have sq': "square n (grid ?sm')"
    using sq len_row by (simp add: square_update)
  have cells: "grid ?sm' ! i ! j =
        (if int i = row \<and> column \<le> int j \<and> int j < column + len then ''X''
         else grid sm ! i ! j)" if "i < n" "j < n" for i j
  proof (cases "i = nat row")
    case True
    then have "grid ?sm' ! i ! j = mark_row ?js (grid sm ! nat row) ! j"
      using that len_g by simp
    also have "\<dots> = (if int j \<in> set ?js then ''X'' else grid sm ! nat row ! j)"
      using that len_row js by (intro mark_row_nth) auto
    finally show ?thesis
      using True row by (auto simp: py_range_def)
  next
    case False
    then show ?thesis using row by auto
  qed
  have count: "length ?js = nat len"
    by (simp add: py_range_def)
  have locs: "map_of (ship_locations ?sm') ship =
        (if len \<le> 0 then map_of (ship_locations sm) ship
         else Some (positions_of (ship_locations sm) ship @ map (\<lambda>i. (row, i)) ?js))"
  proof (cases "len \<le> 0")
    case True
    then have "?js = []" by (simp add: py_range_def)
    then show ?thesis using True by simp
  next
    case False
    then have "?js \<noteq> []" by (simp add: py_range_def)
    then show ?thesis
      using False by (simp add: map_of_fold_setdefault_append)
  qed
  have others: "map_of (ship_locations ?sm') k = map_of (ship_locations sm) k" if "k \<noteq> ship" for k
  proof (cases "?js = []")
    case True
    then show ?thesis by simp
  next
    case False
    then show ?thesis using that by (simp add: map_of_fold_setdefault_append)
  qed
  show ?thesis
    using run sq' cells count locs others by (intro exI [of _ ?sm']) simp
qed

theorem deploy_ship_horizontal_witness:
  "square 8 (grid (ShipManager_init 8 ''Player'')) \<and> (0::int) \<le> 0 \<and> (0::int) < int 8 \<and>
   (0::int) + 2 \<le> int 8 \<and>
   (\<exists>sm'. deploy_ship ''Destroyer'' 2 0 0 ''H'' (ShipManager_init 8 ''Player'') = (None, sm') \<and>
      grid sm' ! 0 ! 0 = ''X'' \<and> grid sm' ! 0 ! 1 = ''X'' \<and> grid sm' ! 0 ! 2 = '' '' \<and>
      grid sm' ! 1 ! 0 = '' '' \<and>
      map_of (ship_locations sm') ''Destroyer'' = Some [(0, 0), (0, 1)])"
proof -
  have sq: "square 8 (grid (ShipManager_init 8 ''Player''))"
    by code_simp
  have old: "grid (ShipManager_init 8 ''Player'') ! 0 ! 2 = '' ''"
    "grid (ShipManager_init 8 ''Player'') ! 1 ! 0 = '' ''"
    "ship_locations (ShipManager_init 8 ''Player'') = []"
    by (simp_all add: ShipManager_init_def)
  have run: "py_range 0 2 = [0, 1]"
    by code_simp
  obtain sm' where sm': "deploy_ship ''Destroyer'' 2 0 0 ''H'' (ShipManager_init 8 ''Player'') = (None, sm')"
    and cells: "\<forall>i<8. \<forall>j<8. grid sm' ! i ! j =
        (if int i = 0 \<and> 0 \<le> int j \<and> int j < 0 + 2 then ''X''
         else grid (ShipManager_init 8 ''Player'') ! i ! j)"
    and locs: "map_of (ship_locations sm') ''Destroyer'' =
        (if (2::int) \<le> 0 then map_of (ship_locations (ShipManager_init 8 ''Player'')) ''Destroyer''
         else Some (positions_of (ship_locations (ShipManager_init 8 ''Player'')) ''Destroyer'' @
                    map (\<lambda>i. (0, i)) (py_range 0 (0 + 2))))"
    using deploy_ship_horizontal [OF sq, of 0 0 2 "''Destroyer''"] by auto
  have c00: "grid sm' ! 0 ! 0 = ''X''" using cells [rule_format, of 0 0] by simp
  have c01: "grid sm' ! 0 ! 1 = ''X''" using cells [rule_format, of 0 1] by simp
  have c02: "grid sm' ! 0 ! 2 = '' ''" using cells [rule_format, of 0 2] old by simp
  have c10: "grid sm' ! 1 ! 0 = '' ''" using cells [rule_format, of 1 0] old by simp
  have "map_of (ship_locations sm') ''Destroyer'' = Some [(0, 0), (0, 1)]"
    using locs by (simp add: old run positions_of_def)
  then show ?thesis
    using sq sm' c00 c01 c02 c10 by simp
qed

text \<open>
  C10, as amended. \<open>check_sunk_ship\<close> never touches the grid. If the coordinate is in no
  ship's list, \<open>ship_locations\<close> is unchanged. Otherwise the ships before the first match (in
  iteration order) are unchanged and the first match loses the first occurrence of the
  coordinate; if its list is then empty, its entry is deleted and all later entries are
  unchanged; if not, the scan goes on and treats the later entries in the same way, so a later
  ship that holds the coordinate loses it too. When no later ship holds the coordinate, the
  later entries are unchanged.
\<close>

theorem check_sunk_ship_effect:
  "grid (check_sunk_ship row column sm) = grid sm \<and>
   ((\<forall>(ship, positions) \<in> set (ship_locations sm). (row, column) \<notin> set positions) \<longrightarrow>
      ship_locations (check_sunk_ship row column sm) = ship_locations sm) \<and>
   (\<forall>xs ship positions ys.
      ship_locations sm = xs @ (ship, positions) # ys \<and>
      (\<forall>(s, ps) \<in> set xs. (row, column) \<notin> set ps) \<and> (row, column) \<in> set positions \<longrightarrow>
      ship_locations (check_sunk_ship row column sm) =
        xs @ (if remove1 (row, column) positions = [] then ys
              else (ship, remove1 (row, column) positions) #
                   ship_locations (check_sunk_ship row column (sm\<lparr>ship_locations := ys\<rparr>))) \<and>
      ((\<forall>(s, ps) \<in> set ys. (row, column) \<notin> set ps) \<longrightarrow>
         ship_locations (check_sunk_ship row column (sm\<lparr>ship_locations := ys\<rparr>)) = ys))"
  by (auto simp: check_sunk_ship_def sunk_scan_no_match sunk_scan_first_match)

theorem check_sunk_ship_effect_witness:
  "ship_locations destroyer_deployed = [] @ (''Destroyer'', [(0, 0), (0, 1)]) # [] \<and>
   ship_locations (check_sunk_ship 0 0 destroyer_deployed) = [(''Destroyer'', [(0, 1)])] \<and>
   ship_locations (check_sunk_ship 5 5 destroyer_deployed) = ship_locations destroyer_deployed"
proof -
  have hit: "ship_locations (check_sunk_ship 0 0 destroyer_deployed) = [(''Destroyer'', [(0, 1)])]"
    using check_sunk_ship_effect [of 0 0 destroyer_deployed, THEN conjunct2, THEN conjunct2,
        rule_format, of "[]" "''Destroyer''" "[(0, 0), (0, 1)]" "[]"]
    by (simp add: destroyer_deployed_fleet)
  have miss: "ship_locations (check_sunk_ship 5 5 destroyer_deployed) = ship_locations destroyer_deployed"
    using check_sunk_ship_effect [of 5 5 destroyer_deployed, THEN conjunct2, THEN conjunct1]
    by (simp add: destroyer_deployed_fleet)
  show ?thesis using hit miss by (simp add: destroyer_deployed_fleet)
qed

text \<open>
  The claim as stated fails for two ships that both hold the coordinate: the first match
  \<open>A\<close> is not emptied by the hit on (0,0), and the second ship \<open>B\<close> loses the coordinate as
  well.
\<close>

lemma crossing_ships_fleet:
  "ship_locations crossing_ships = [(''A'', [(0, 0), (0, 1)]), (''B'', [(0, 0), (1, 0)])]"
  by code_simp

theorem check_sunk_ship_first_match_counterexample:
  "ship_locations crossing_ships = [(''A'', [(0, 0), (0, 1)]), (''B'', [(0, 0), (1, 0)])] \<and>
   ship_locations (check_sunk_ship 0 0 crossing_ships) = [(''A'', [(0, 1)]), (''B'', [(1, 0)])]"
  by code_simp

section \<open>BoardValidator: runs that leave the board\<close>

text \<open>
  C4, as amended. On a square board of side \<open>n\<close>, for every placement whose run has a cell
  with a row or column index outside \<open>[-n, n)\<close> (so every run of length at least 1 that starts
  at non-negative indices and passes the edge \<open>n\<close>), \<open>check_overlap\<close> returns true and raises
  nothing.
\<close>

theorem check_overlap_off_board:
  assumes "square n g"
    and "\<exists>(r, c) \<in> set (run_cells row column orientation len).
           r < - int n \<or> int n \<le> r \<or> c < - int n \<or> int n \<le> c"
  shows "check_overlap g row column orientation len = Inr True"
proof -
  have "\<exists>(r, c) \<in> set (run_cells row column orientation len). grid_get g r c = Inl IndexError"
    using assms by (auto dest: grid_get_out_of_range)
  then have "any_ship_cell g (run_cells row column orientation len) = Inr True \<or>
             any_ship_cell g (run_cells row column orientation len) = Inl IndexError"
    by (rule any_ship_cell_raises)
  then show ?thesis
    by (auto simp: check_overlap_def)
qed

theorem check_overlap_off_board_witness:
  "square 8 (grid destroyer_deployed) \<and>
   (\<exists>(r, c) \<in> set (run_cells 2 7 ''H'' 2). r < - int 8 \<or> int 8 \<le> r \<or> c < - int 8 \<or> int 8 \<le> c) \<and>
   check_overlap (grid destroyer_deployed) 2 7 ''H'' 2 = Inr True \<and>
   (\<exists>(r, c) \<in> set (run_cells (- 9) 0 ''V'' 1). r < - int 8 \<or> int 8 \<le> r \<or> c < - int 8 \<or> int 8 \<le> c) \<and>
   check_overlap (grid destroyer_deployed) (- 9) 0 ''V'' 1 = Inr True"
proof -
  have sq: "square 8 (grid destroyer_deployed)"
    by code_simp
  have past: "\<exists>(r, c) \<in> set (run_cells 2 7 ''H'' 2).
      r < - int 8 \<or> int 8 \<le> r \<or> c < - int 8 \<or> int 8 \<le> c"
    by (rule run_cells_past_edge) simp_all
  have before: "\<exists>(r, c) \<in> set (run_cells (- 9) 0 ''V'' 1).
      r < - int 8 \<or> int 8 \<le> r \<or> c < - int 8 \<or> int 8 \<le> c"
    by code_simp
  show ?thesis
    using sq past before check_overlap_off_board [OF sq past] check_overlap_off_board [OF sq before]
    by simp
qed

text \<open>
  The claim as stated fails for a run on row \<open>-1\<close>: Python reads row \<open>-1\<close> as the last row,
  no IndexError is raised, and the empty board gives false.
\<close>

theorem check_overlap_negative_row_counterexample:
  "(- 1, 0) \<in> set (run_cells (- 1) 0 ''H'' 2) \<and>
   square 8 (grid (ShipManager_init 8 ''Player'')) \<and>
   check_overlap (grid (ShipManager_init 8 ''Player'')) (- 1) 0 ''H'' 2 = Inr False"
  by code_simp

section \<open>The probability map as a count of placements\<close>

lemma update_probability_map_weights:
  assumes "board_ok cfg self"
  shows "\<exists>pm'. update_probability_map cfg self opp = Inr (self\<lparr>probability_map := pm'\<rparr>) \<and>
           square (nat (BOARD_SIZE cfg)) pm' \<and>
           (\<forall>r<nat (BOARD_SIZE cfg). \<forall>c<nat (BOARD_SIZE cfg). pm' ! r ! c =
              (if attacked (grid (attack_board self) ! r ! c) then 0 else 1) +
              (\<Sum>ship_len\<leftarrow>SHIP_TYPES cfg.
                  placements_through cfg (grid (attack_board self)) (snd ship_len) r c))"
proof -
  have n: "BOARD_SIZE cfg = int (nat (BOARD_SIZE cfg))"
    using assms by (simp add: board_ok_def)
  have sq: "square (nat (BOARD_SIZE cfg)) (grid (attack_board self))"
    and pm: "square (nat (BOARD_SIZE cfg)) (probability_map self)"
    using assms by (simp_all add: board_ok_def)
  from compute_probability_map_weights [OF sq n pm, of opp]
  obtain pm' where "compute_probability_map cfg self opp (probability_map self) = Inr pm'"
    "square (nat (BOARD_SIZE cfg)) pm'"
    "\<forall>r<nat (BOARD_SIZE cfg). \<forall>c<nat (BOARD_SIZE cfg). pm' ! r ! c =
              (if attacked (grid (attack_board self) ! r ! c) then 0 else 1) +
              (\<Sum>ship_len\<leftarrow>SHIP_TYPES cfg.
                  placements_through cfg (grid (attack_board self)) (snd ship_len) r c)"
    by blast
  then show ?thesis
    by (auto simp: update_probability_map_def)
qed

lemma filter_moves_on_board:
  assumes "square n g" "BOARD_SIZE cfg = int n"
  shows "filter_moves cfg g ms =
           Inr (filter (\<lambda>rc. on_board n rc \<and> \<not> attacked (g ! nat (fst rc) ! nat (snd rc))) ms)"
proof (induction ms)
  case Nil
  show ?case by simp
next
  case (Cons rc ms)
  obtain r c where rc: "rc = (r, c)" by (cases rc)
  show ?case
  proof (cases "on_board n rc")
    case True
    then have "grid_get g r c = Inr (g ! nat r ! nat c)"
      using square_get [OF assms(1) True] rc by simp
    then show ?thesis
      using True Cons assms(2) rc by (simp add: on_board_def)
  next
    case False
    then show ?thesis
      using Cons assms(2) rc by (auto simp: on_board_def)
  qed
qed

lemma random_choice_member: "xs \<noteq> [] \<Longrightarrow> random_choice rnd xs \<in> set xs"
  by (simp add: random_choice_def)

lemma probability_target_first_max:
  assumes "board_ok cfg self" "0 < BOARD_SIZE cfg"
  shows "\<exists>r c pm'. r < nat (BOARD_SIZE cfg) \<and> c < nat (BOARD_SIZE cfg) \<and>
           update_probability_map cfg self opp = Inr (self\<lparr>probability_map := pm'\<rparr>) \<and>
           probability_target cfg self opp = Inr ((int r, int c), self\<lparr>probability_map := pm'\<rparr>) \<and>
           (\<forall>r'<nat (BOARD_SIZE cfg). \<forall>c'<nat (BOARD_SIZE cfg). pm' ! r' ! c' \<le> pm' ! r ! c) \<and>
           (\<forall>r'<nat (BOARD_SIZE cfg). \<forall>c'<nat (BOARD_SIZE cfg).
              pm' ! r' ! c' = pm' ! r ! c \<longrightarrow> r < r' \<or> (r = r' \<and> c \<le> c'))"
proof -
  let ?n = "nat (BOARD_SIZE cfg)"
  obtain pm' where pm': "update_probability_map cfg self opp = Inr (self\<lparr>probability_map := pm'\<rparr>)"
      "square ?n pm'"
    using update_probability_map_weights [OF assms(1), of opp] by blast
  have pos: "0 < ?n" using assms(2) by simp
  obtain r c where rc: "r < ?n" "c < ?n" "np_argmax pm' = Inr (r * ?n + c)"
      "np_unravel_index (r * ?n + c) pm' = Inr (int r, int c)"
      "\<forall>r'<?n. \<forall>c'<?n. pm' ! r' ! c' \<le> pm' ! r ! c"
      "\<forall>r'<?n. \<forall>c'<?n. pm' ! r' ! c' = pm' ! r ! c \<longrightarrow> r < r' \<or> (r = r' \<and> c \<le> c')"
    using argmax_cell [OF pm'(2) pos] by blast
  have "probability_target cfg self opp = Inr ((int r, int c), self\<lparr>probability_map := pm'\<rparr>)"
    using pm'(1) rc(3,4) by (simp add: probability_target_def)
  then show ?thesis
    using rc(1,2,5,6) pm'(1) by blast
qed

lemma select_target_fresh_cell:
  assumes ok: "board_ok cfg self" and pos: "0 < BOARD_SIZE cfg"
    and empty: "hit_stack self = []"
    and free: "r0 < nat (BOARD_SIZE cfg)" "c0 < nat (BOARD_SIZE cfg)"
      "\<not> attacked (grid (attack_board self) ! r0 ! c0)"
  shows "\<exists>rc self'. select_target cfg rnd self opp = Inr (rc, self') \<and>
           on_board (nat (BOARD_SIZE cfg)) rc \<and>
           \<not> attacked (grid (attack_board self) ! nat (fst rc) ! nat (snd rc))"
proof -
  let ?n = "nat (BOARD_SIZE cfg)" and ?g = "grid (attack_board self)"
  have sq: "square ?n ?g" and n: "BOARD_SIZE cfg = int ?n"
    using ok by (simp_all add: board_ok_def)
  have by_map: "\<exists>rc self'. probability_target cfg s opp = Inr (rc, self') \<and>
           on_board ?n rc \<and> \<not> attacked (?g ! nat (fst rc) ! nat (snd rc))"
    if s: "board_ok cfg s" "grid (attack_board s) = ?g" for s
  proof -
    obtain r c pm' where *: "r < ?n" "c < ?n"
        "update_probability_map cfg s opp = Inr (s\<lparr>probability_map := pm'\<rparr>)"
        "probability_target cfg s opp = Inr ((int r, int c), s\<lparr>probability_map := pm'\<rparr>)"
        "\<forall>r'<?n. \<forall>c'<?n. pm' ! r' ! c' \<le> pm' ! r ! c"
      using probability_target_first_max [OF s(1) pos, of opp] by blast
    obtain pm'' where **: "update_probability_map cfg s opp = Inr (s\<lparr>probability_map := pm''\<rparr>)"
        "\<forall>r<?n. \<forall>c<?n. pm'' ! r ! c =
              (if attacked (?g ! r ! c) then 0 else 1) +
              (\<Sum>ship_len\<leftarrow>SHIP_TYPES cfg. placements_through cfg ?g (snd ship_len) r c)"
      using update_probability_map_weights [OF s(1), of opp] unfolding s(2) by blast
    have "s\<lparr>probability_map := pm''\<rparr> = s\<lparr>probability_map := pm'\<rparr>"
      using *(3) **(1) by simp
    then have "probability_map (s\<lparr>probability_map := pm''\<rparr>) =
               probability_map (s\<lparr>probability_map := pm'\<rparr>)"
      by (rule arg_cong)
    then have same: "pm'' = pm'" by simp
    have "1 \<le> pm' ! r0 ! c0"
      using **(2) free same by simp
    then have "1 \<le> pm' ! r ! c"
      using *(5) free(1,2) by (meson le_trans)
    then have "\<not> attacked (?g ! r ! c)"
      using **(2) *(1,2) same by (auto simp: placements_through_attacked)
    then show ?thesis
      using *(1,2,4) by (auto simp: on_board_def)
  qed
  show ?thesis
  proof (cases "last_hit self")
    case None
    then show ?thesis
      using by_map [OF ok] empty by (simp add: select_target_def)
  next
    case (Some lh)
    let ?moves = "filter (\<lambda>rc. on_board ?n rc \<and> \<not> attacked (?g ! nat (fst rc) ! nat (snd rc)))
                    (hunt_moves (direction self) lh)"
    have fm: "filter_moves cfg ?g (hunt_moves (direction self) lh) = Inr ?moves"
      using sq n by (rule filter_moves_on_board)
    show ?thesis
    proof (cases "?moves = []")
      case True
      have "board_ok cfg (self\<lparr>last_hit := None, direction := None, hit_stack := []\<rparr>)"
        using ok by (simp add: board_ok_def)
      from by_map [OF this] show ?thesis
        using Some empty fm True by (simp add: select_target_def)
    next
      case False
      then have "random_choice rnd ?moves \<in> set ?moves"
        by (rule random_choice_member)
      then show ?thesis
        using Some empty fm False by (simp add: select_target_def)
    qed
  qed
qed

section \<open>The two games, turn by turn\<close>

lemma computer_turns_append:
  "computer_turns cfg (xs @ ys) players =
     (case computer_turns cfg xs players of
        Inl e \<Rightarrow> Inl e
      | Inr players' \<Rightarrow> computer_turns cfg ys players')"
  by (induction xs arbitrary: players) (auto split: sum.splits)

lemma small_game_two_turns:
  "computer_turns small_config [0, 1] (ComputerPlayer_init small_config, small_human) =
     Inr (small_computer_after_2, small_human_after_2)"
  by code_simp

lemma small_board_ok: "board_ok small_config small_computer_after_2"
  by code_simp

lemma small_size: "nat (BOARD_SIZE small_config) = 2"
  by (simp add: small_config_def)

lemma small_weight:
  "(if attacked (grid (attack_board small_computer_after_2) ! 1 ! 0) then 0 else 1) +
   (\<Sum>ship_len\<leftarrow>SHIP_TYPES small_config.
       placements_through small_config (grid (attack_board small_computer_after_2)) (snd ship_len) 1 0) = 4"
  by code_simp

lemma small_destroyer_part:
  "placements_through small_config (grid (attack_board small_computer_after_2)) 2 1 0 = 1"
  by code_simp

lemma small_reset_target:
  "probability_target small_config small_reset small_human_after_2 =
     Inr ((1, 0), small_reset\<lparr>probability_map := [[0, 0], [4, 4]]\<rparr>)"
  by code_simp

lemma small_hunt_exhausted:
  "filter_moves small_config (grid (attack_board small_computer_after_2))
     (hunt_moves (direction small_computer_after_2) (0, 1)) = Inr []"
  by code_simp

lemma four_turns:
  "computer_turns standard_config [0, 3, 0, 0] (ComputerPlayer_init standard_config, human_fleet) =
     Inr (computer_after_4, human_after_4)"
  by code_simp

lemma fifth_selection:
  "select_target standard_config 0 computer_after_4 human_after_4 =
     Inr ((3, 1), computer_after_4\<lparr>hit_stack := [(3, 5), (3, 1), (3, 6)]\<rparr>)"
  by code_simp

lemma fifth_target_is_ship:
  "grid_get (grid (ship_manager human_after_4)) 3 1 = Inr ''X''"
  by code_simp

lemma fifth_turn:
  "take_turn standard_config 0 computer_after_4 human_after_4 =
     Inr (computer_after_5, human_after_5)"
  by code_simp

lemma five_turns:
  "computer_turns standard_config [0, 3, 0, 0, 0] (ComputerPlayer_init standard_config, human_fleet) =
     Inr (computer_after_5, human_after_5)"
proof -
  have "computer_turns standard_config ([0, 3, 0, 0] @ [0])
          (ComputerPlayer_init standard_config, human_fleet) =
        computer_turns standard_config [0] (computer_after_4, human_after_4)"
    by (simp only: computer_turns_append four_turns sum.case)
  also have "\<dots> = Inr (computer_after_5, human_after_5)"
    by (simp add: fifth_turn)
  finally show ?thesis
    by (simp only: append_Cons append_Nil)
qed

lemma sixth_selection:
  "select_target standard_config 0 computer_after_5 human_after_5 =
     Inr ((3, 5), computer_after_5\<lparr>hit_stack := [(3, 1), (3, 6), (3, 0), (3, 6)]\<rparr>)"
  by code_simp

lemma small_third_selection:
  "select_target small_config 0 small_computer_after_2 small_human_after_2 =
     Inr ((1, 0), small_reset\<lparr>probability_map := [[0, 0], [4, 4]]\<rparr>)"
  by code_simp

lemma small_third_turn:
  "take_turn small_config 0 small_computer_after_2 small_human_after_2 =
     Inr (small_computer_after_3, small_human_after_2)"
  by code_simp

lemma small_third_target_is_water:
  "grid_get (grid (ship_manager small_human_after_2)) 1 0 = Inr '' ''"
  by code_simp

lemma small_hunt_is_exhausted: "hunt_exhausted small_config small_computer_after_2"
  by code_simp

lemma fifth_hunt_not_exhausted: "\<not> hunt_exhausted standard_config computer_after_4"
  by code_simp

lemma patrol_game_two_turns:
  "computer_turns small_config [0, 1] (ComputerPlayer_init small_config, patrol_human) =
     Inr (small_computer_after_2, patrol_human_after_2)"
  by code_simp

lemma patrol_third_selection:
  "select_target small_config 0 small_computer_after_2 patrol_human_after_2 =
     Inr ((1, 0), small_reset\<lparr>probability_map := [[0, 0], [4, 4]]\<rparr>)"
  by code_simp

lemma patrol_third_turn:
  "take_turn small_config 0 small_computer_after_2 patrol_human_after_2 =
     Inr (patrol_computer_after_3,
          patrol_human_after_2
            \<lparr>ship_manager := check_sunk_ship 1 0 (ship_manager patrol_human_after_2)\<rparr>)"
  by code_simp

lemma patrol_third_target_is_ship:
  "grid_get (grid (ship_manager patrol_human_after_2)) 1 0 = Inr ''X''"
  by code_simp

section \<open>ComputerPlayer: the probability map\<close>

text \<open>
  C8. On boards of the shape the constructors give, every call of \<open>update_probability_map\<close>
  returns, changes only the probability map, and leaves weight 0 on every cell of the attack
  board marked \<open>"X"\<close> or \<open>"-"\<close> and weight at least 1 on every other cell, hence on every
  un-attacked cell through which some ship length fits.
\<close>

theorem update_probability_map_attacked_zero:
  assumes "board_ok cfg self"
  shows "\<exists>pm'. update_probability_map cfg self opp = Inr (self\<lparr>probability_map := pm'\<rparr>) \<and>
           square (nat (BOARD_SIZE cfg)) pm' \<and>
           (\<forall>r<nat (BOARD_SIZE cfg). \<forall>c<nat (BOARD_SIZE cfg).
              (attacked (grid (attack_board self) ! r ! c) \<longrightarrow> pm' ! r ! c = 0) \<and>
              (\<not> attacked (grid (attack_board self) ! r ! c) \<longrightarrow> 1 \<le> pm' ! r ! c))"
proof -
  from update_probability_map_weights [OF assms, of opp]
  obtain pm' where pm': "update_probability_map cfg self opp = Inr (self\<lparr>probability_map := pm'\<rparr>)"
    "square (nat (BOARD_SIZE cfg)) pm'"
    "\<forall>r<nat (BOARD_SIZE cfg). \<forall>c<nat (BOARD_SIZE cfg). pm' ! r ! c =
              (if attacked (grid (attack_board self) ! r ! c) then 0 else 1) +
              (\<Sum>ship_len\<leftarrow>SHIP_TYPES cfg.
                  placements_through cfg (grid (attack_board self)) (snd ship_len) r c)"
    by blast
  have "(attacked (grid (attack_board self) ! r ! c) \<longrightarrow> pm' ! r ! c = 0) \<and>
        (\<not> attacked (grid (attack_board self) ! r ! c) \<longrightarrow> 1 \<le> pm' ! r ! c)"
    if "r < nat (BOARD_SIZE cfg)" "c < nat (BOARD_SIZE cfg)" for r c
    using pm'(3) that by (simp add: placements_through_attacked)
  then show ?thesis using pm'(1,2) by blast
qed

theorem update_probability_map_attacked_zero_witness:
  "board_ok small_config small_computer_after_2 \<and>
   attacked (grid (attack_board small_computer_after_2) ! 0 ! 1) \<and>
   \<not> attacked (grid (attack_board small_computer_after_2) ! 1 ! 0) \<and>
   (\<exists>pm'. update_probability_map small_config small_computer_after_2 small_human_after_2 =
            Inr (small_computer_after_2\<lparr>probability_map := pm'\<rparr>) \<and>
          pm' ! 0 ! 1 = 0 \<and> 1 \<le> pm' ! 1 ! 0)"
proof -
  have a: "attacked (grid (attack_board small_computer_after_2) ! 0 ! 1)"
    by code_simp
  have b: "\<not> attacked (grid (attack_board small_computer_after_2) ! 1 ! 0)"
    by code_simp
  obtain pm' where pm': "update_probability_map small_config small_computer_after_2 small_human_after_2 =
            Inr (small_computer_after_2\<lparr>probability_map := pm'\<rparr>)"
    "\<forall>r<2. \<forall>c<2.
              (attacked (grid (attack_board small_computer_after_2) ! r ! c) \<longrightarrow> pm' ! r ! c = 0) \<and>
              (\<not> attacked (grid (attack_board small_computer_after_2) ! r ! c) \<longrightarrow> 1 \<le> pm' ! r ! c)"
    using update_probability_map_attacked_zero [OF small_board_ok, of small_human_after_2]
    unfolding small_size by blast
  have "pm' ! 0 ! 1 = 0" using pm'(2) [rule_format, of 0 1] a by simp
  moreover have "1 \<le> pm' ! 1 ! 0" using pm'(2) [rule_format, of 1 0] b by simp
  ultimately show ?thesis using small_board_ok a b pm'(1) by blast
qed

text \<open>
  C3, as amended. \<open>update_probability_map\<close> accumulates the placement counts of every entry
  of \<open>SHIP_TYPES\<close>, whether or not that ship is still in the opponent's fleet: the weight of
  a cell is 0 or 1 for attacked or not, plus the number of placements through the cell summed
  over all configured ship lengths. The opponent is an argument that the result does not
  depend on.
\<close>

theorem update_probability_map_counts_every_ship_type:
  assumes "board_ok cfg self"
  shows "\<exists>pm'. update_probability_map cfg self opp = Inr (self\<lparr>probability_map := pm'\<rparr>) \<and>
           (\<forall>r<nat (BOARD_SIZE cfg). \<forall>c<nat (BOARD_SIZE cfg). pm' ! r ! c =
              (if attacked (grid (attack_board self) ! r ! c) then 0 else 1) +
              (\<Sum>ship_len\<leftarrow>SHIP_TYPES cfg.
                  placements_through cfg (grid (attack_board self)) (snd ship_len) r c))"
  using update_probability_map_weights [OF assms, of opp] by blast

theorem update_probability_map_counts_every_ship_type_witness:
  "board_ok small_config small_computer_after_2 \<and>
   map_of (ship_locations (ship_manager small_human_after_2)) ''Destroyer'' = None \<and>
   placements_through small_config (grid (attack_board small_computer_after_2)) 2 1 0 = 1 \<and>
   (\<exists>pm'. update_probability_map small_config small_computer_after_2 small_human_after_2 =
            Inr (small_computer_after_2\<lparr>probability_map := pm'\<rparr>) \<and>
          pm' ! 1 ! 0 = 4)"
proof -
  have sunk: "map_of (ship_locations (ship_manager small_human_after_2)) ''Destroyer'' = None"
    by code_simp
  obtain pm' where pm': "update_probability_map small_config small_computer_after_2 small_human_after_2 =
            Inr (small_computer_after_2\<lparr>probability_map := pm'\<rparr>)"
    "\<forall>r<2. \<forall>c<2. pm' ! r ! c =
              (if attacked (grid (attack_board small_computer_after_2) ! r ! c) then 0 else 1) +
              (\<Sum>ship_len\<leftarrow>SHIP_TYPES small_config.
                  placements_through small_config (grid (attack_board small_computer_after_2))
                    (snd ship_len) r c)"
    using update_probability_map_counts_every_ship_type [OF small_board_ok, of small_human_after_2]
    unfolding small_size by blast
  have "pm' ! 1 ! 0 = 4"
    using pm'(2) [rule_format, of 1 0] small_weight by simp
  then show ?thesis
    using small_board_ok sunk small_destroyer_part pm'(1) by blast
qed

text \<open>
  The claim as stated fails once a ship is sunk. After two turns of the small game the
  Destroyer is gone from the human's fleet and only the Patrol boat remains, yet the map
  still counts the placement of length 2 on row 1: the weights there are 4, and they would
  be 3 if only the remaining ship lengths were counted.
\<close>

theorem sunk_ship_length_counted_counterexample:
  "computer_turns small_config [0, 1] (ComputerPlayer_init small_config, small_human) =
     Inr (small_computer_after_2, small_human_after_2) \<and>
   remaining_ship_types small_config small_human_after_2 = [(''Patrol'', 1)] \<and>
   map_sum id probability_map
     (update_probability_map small_config small_computer_after_2 small_human_after_2) =
     Inr [[0, 0], [4, 4]] \<and>
   map_sum id probability_map
     (update_probability_map
        (small_config\<lparr>SHIP_TYPES := remaining_ship_types small_config small_human_after_2\<rparr>)
        small_computer_after_2 small_human_after_2) =
     Inr [[0, 0], [3, 3]]"
  by code_simp

section \<open>ComputerPlayer: the choice of the target\<close>

text \<open>
  C7. In probability mode the selected coordinate is on the board, its weight in the
  recomputed map is the greatest of all weights, and every cell of equal weight comes later
  in row-major order (a greater row, or the same row and a greater or equal column).
\<close>

theorem probability_mode_selects_first_maximum:
  assumes "board_ok cfg self" "0 < BOARD_SIZE cfg"
  shows "\<exists>r c pm'. r < nat (BOARD_SIZE cfg) \<and> c < nat (BOARD_SIZE cfg) \<and>
           update_probability_map cfg self opp = Inr (self\<lparr>probability_map := pm'\<rparr>) \<and>
           probability_target cfg self opp = Inr ((int r, int c), self\<lparr>probability_map := pm'\<rparr>) \<and>
           (hit_stack self = [] \<and> last_hit self = None \<longrightarrow>
              select_target cfg rnd self opp = Inr ((int r, int c), self\<lparr>probability_map := pm'\<rparr>)) \<and>
           (\<forall>r'<nat (BOARD_SIZE cfg). \<forall>c'<nat (BOARD_SIZE cfg). pm' ! r' ! c' \<le> pm' ! r ! c) \<and>
           (\<forall>r'<nat (BOARD_SIZE cfg). \<forall>c'<nat (BOARD_SIZE cfg).
              pm' ! r' ! c' = pm' ! r ! c \<longrightarrow> r < r' \<or> (r = r' \<and> c \<le> c'))"
proof -
  from probability_target_first_max [OF assms, of opp]
  obtain r c pm' where *: "r < nat (BOARD_SIZE cfg)" "c < nat (BOARD_SIZE cfg)"
      "update_probability_map cfg self opp = Inr (self\<lparr>probability_map := pm'\<rparr>)"
      "probability_target cfg self opp = Inr ((int r, int c), self\<lparr>probability_map := pm'\<rparr>)"
      "\<forall>r'<nat (BOARD_SIZE cfg). \<forall>c'<nat (BOARD_SIZE cfg). pm' ! r' ! c' \<le> pm' ! r ! c"
      "\<forall>r'<nat (BOARD_SIZE cfg). \<forall>c'<nat (BOARD_SIZE cfg).
              pm' ! r' ! c' = pm' ! r ! c \<longrightarrow> r < r' \<or> (r = r' \<and> c \<le> c')"
    by blast
  have "hit_stack self = [] \<and> last_hit self = None \<longrightarrow>
          select_target cfg rnd self opp = Inr ((int r, int c), self\<lparr>probability_map := pm'\<rparr>)"
    using *(4) by (simp add: select_target_def)
  then show ?thesis using * by blast
qed

theorem probability_mode_selects_first_maximum_witness:
  "board_ok small_config small_reset \<and> 0 < BOARD_SIZE small_config \<and>
   hit_stack small_reset = [] \<and> last_hit small_reset = None \<and>
   (\<exists>r c pm'. r < 2 \<and> c < 2 \<and>
      select_target small_config 0 small_reset small_human_after_2 =
        Inr ((int r, int c), small_reset\<lparr>probability_map := pm'\<rparr>) \<and>
      Inr ((int r, int c), small_reset\<lparr>probability_map := pm'\<rparr>) =
        (Inr ((1, 0), small_reset\<lparr>probability_map := [[0, 0], [4, 4]]\<rparr>)
           :: error + coord \<times> computer_player) \<and>
      (\<forall>r'<2. \<forall>c'<2. pm' ! r' ! c' \<le> pm' ! r ! c))"
proof -
  have ok: "board_ok small_config small_reset" by code_simp
  have pos: "0 < BOARD_SIZE small_config" by code_simp
  have mode: "hit_stack small_reset = []" "last_hit small_reset = None"
    by (simp_all add: small_reset_def)
  obtain r c pm' where *: "r < 2" "c < 2"
      "probability_target small_config small_reset small_human_after_2 =
         Inr ((int r, int c), small_reset\<lparr>probability_map := pm'\<rparr>)"
      "hit_stack small_reset = [] \<and> last_hit small_reset = None \<longrightarrow>
         select_target small_config 0 small_reset small_human_after_2 =
           Inr ((int r, int c), small_reset\<lparr>probability_map := pm'\<rparr>)"
      "\<forall>r'<2. \<forall>c'<2. pm' ! r' ! c' \<le> pm' ! r ! c"
    using probability_mode_selects_first_maximum [OF ok pos, of small_human_after_2 0]
    unfolding small_size by blast
  have "Inr ((int r, int c), small_reset\<lparr>probability_map := pm'\<rparr>) =
        (Inr ((1, 0), small_reset\<lparr>probability_map := [[0, 0], [4, 4]]\<rparr>)
           :: error + coord \<times> computer_player)"
    using *(3) small_reset_target by simp
  then show ?thesis
    using ok pos mode * by blast
qed

text \<open>
  C6, as amended. The target is chosen in this order. If \<open>hit_stack\<close> is not empty, the
  target is its first entry, which is removed from the front. Only if \<open>hit_stack\<close> is empty is
  \<open>last_hit\<close> consulted: the target is then one of the moves around the last hit that pass
  the filter, if there is one. The probability map is recomputed and used when \<open>last_hit\<close> is
  unset, and also when \<open>last_hit\<close> is set but no move around it passes the filter; in that case
  \<open>last_hit\<close>, \<open>direction\<close> and \<open>hit_stack\<close> are cleared first.
\<close>

theorem select_target_priority:
  "(\<forall>p rest. hit_stack self = p # rest \<longrightarrow>
      select_target cfg rnd self opp = Inr (p, self\<lparr>hit_stack := rest\<rparr>)) \<and>
   (\<forall>lh moves. hit_stack self = [] \<and> last_hit self = Some lh \<and>
      filter_moves cfg (grid (attack_board self)) (hunt_moves (direction self) lh) = Inr moves \<and>
      moves \<noteq> [] \<longrightarrow>
      select_target cfg rnd self opp = Inr (random_choice rnd moves, self) \<and>
      random_choice rnd moves \<in> set moves) \<and>
   (\<forall>lh. hit_stack self = [] \<and> last_hit self = Some lh \<and>
      filter_moves cfg (grid (attack_board self)) (hunt_moves (direction self) lh) = Inr [] \<longrightarrow>
      select_target cfg rnd self opp =
        probability_target cfg (self\<lparr>last_hit := None, direction := None, hit_stack := []\<rparr>) opp) \<and>
   (hit_stack self = [] \<and> last_hit self = None \<longrightarrow>
      select_target cfg rnd self opp = probability_target cfg self opp)"
  by (simp add: select_target_def random_choice_member)

theorem select_target_priority_witness:
  "hit_stack computer_after_5 = (3, 5) # [(3, 1), (3, 6), (3, 0), (3, 6)] \<and>
   select_target standard_config 0 computer_after_5 human_after_5 =
     Inr ((3, 5), computer_after_5\<lparr>hit_stack := [(3, 1), (3, 6), (3, 0), (3, 6)]\<rparr>) \<and>
   hit_stack small_computer_after_2 = [] \<and> last_hit small_computer_after_2 = Some (0, 1) \<and>
   filter_moves small_config (grid (attack_board small_computer_after_2))
     (hunt_moves (direction small_computer_after_2) (0, 1)) = Inr [] \<and>
   select_target small_config 0 small_computer_after_2 small_human_after_2 =
     probability_target small_config small_reset small_human_after_2"
proof -
  have queue: "hit_stack computer_after_5 = (3, 5) # [(3, 1), (3, 6), (3, 0), (3, 6)]"
    by (simp add: computer_after_5_def)
  have hunt: "hit_stack small_computer_after_2 = []" "last_hit small_computer_after_2 = Some (0, 1)"
    by (simp_all add: small_computer_after_2_def)
  have first: "select_target standard_config 0 computer_after_5 human_after_5 =
     Inr ((3, 5), computer_after_5\<lparr>hit_stack := [(3, 1), (3, 6), (3, 0), (3, 6)]\<rparr>)"
    using select_target_priority [of computer_after_5 standard_config 0 human_after_5] queue
    by blast
  have third: "select_target small_config 0 small_computer_after_2 small_human_after_2 =
     probability_target small_config small_reset small_human_after_2"
    using select_target_priority [of small_computer_after_2 small_config 0 small_human_after_2]
      hunt small_hunt_exhausted
    unfolding small_reset_def by blast
  show ?thesis
    using queue hunt small_hunt_exhausted first third by blast
qed

text \<open>
  The claim as stated fails where the hunt is exhausted: after two turns of the small game
  \<open>hit_stack\<close> is empty and \<open>last_hit\<close> is (0,1), and the turn recomputes the probability map
  and takes its target (1,0) from it.
\<close>

theorem select_target_fallback_counterexample:
  "computer_turns small_config [0, 1] (ComputerPlayer_init small_config, small_human) =
     Inr (small_computer_after_2, small_human_after_2) \<and>
   hit_stack small_computer_after_2 = [] \<and>
   last_hit small_computer_after_2 = Some (0, 1) \<and>
   probability_map small_computer_after_2 = [[5, 5], [5, 5]] \<and>
   select_target small_config 0 small_computer_after_2 small_human_after_2 =
     Inr ((1, 0),
          small_computer_after_2
            \<lparr>last_hit := None, hit_stack := [], direction := None,
             probability_map := [[0, 0], [4, 4]]\<rparr>)"
  by code_simp

section \<open>ComputerPlayer: the hunt state after a turn\<close>

lemma probability_target_keeps_hunt:
  assumes "probability_target cfg s opp = Inr (rc, s1)"
  shows "last_hit s1 = last_hit s \<and> direction s1 = direction s \<and> hit_stack s1 = hit_stack s"
proof (cases "compute_probability_map cfg s opp (probability_map s)")
  case (Inl e)
  then show ?thesis
    using assms by (simp add: probability_target_def update_probability_map_def)
next
  case (Inr pm)
  then have upd: "update_probability_map cfg s opp = Inr (s\<lparr>probability_map := pm\<rparr>)"
    by (simp add: update_probability_map_def)
  have "s1 = s\<lparr>probability_map := pm\<rparr>"
    using assms unfolding probability_target_def upd
    by (auto split: sum.splits)
  then show ?thesis by simp
qed

lemma select_target_hunt_state:
  assumes "select_target cfg rnd self opp = Inr (rc, self1)"
  shows "(hunt_exhausted cfg self \<longrightarrow>
            last_hit self1 = None \<and> direction self1 = None \<and> hit_stack self1 = []) \<and>
         (\<not> hunt_exhausted cfg self \<longrightarrow>
            last_hit self1 = last_hit self \<and> direction self1 = direction self \<and>
            hit_stack self1 = tl (hit_stack self))"
proof (cases "hit_stack self")
  case (Cons p rest)
  then have "self1 = self\<lparr>hit_stack := rest\<rparr>"
    using assms by (simp add: select_target_def)
  then show ?thesis
    using Cons by (simp add: hunt_exhausted_def)
next
  case Nil
  show ?thesis
  proof (cases "last_hit self")
    case None
    then have "probability_target cfg self opp = Inr (rc, self1)"
      using assms Nil by (simp add: select_target_def)
    from probability_target_keeps_hunt [OF this] show ?thesis
      using Nil None by (simp add: hunt_exhausted_def)
  next
    case (Some lh)
    show ?thesis
    proof (cases "filter_moves cfg (grid (attack_board self)) (hunt_moves (direction self) lh)")
      case (Inl e)
      then show ?thesis
        using assms Nil Some by (simp add: select_target_def)
    next
      case (Inr moves)
      show ?thesis
      proof (cases "moves = []")
        case True
        then have "probability_target cfg
                     (self\<lparr>last_hit := None, direction := None, hit_stack := []\<rparr>) opp =
                   Inr (rc, self1)"
          using assms Nil Some Inr by (simp add: select_target_def)
        from probability_target_keeps_hunt [OF this] show ?thesis
          using Nil Some Inr True by (simp add: hunt_exhausted_def)
      next
        case False
        then have "self1 = self"
          using assms Nil Some Inr by (simp add: select_target_def)
        then show ?thesis
          using Nil Some Inr False by (simp add: hunt_exhausted_def)
      qed
    qed
  qed
qed

lemma process_attack_hit:
  assumes "grid_get (grid (ship_manager opp)) (fst rc) (snd rc) = Inr ''X''"
    and "process_attack cfg rc self1 opp = Inr (self', opp')"
  shows "\<exists>g self2. grid_set (grid (attack_board self1)) (fst rc) (snd rc) ''X'' = Inr g \<and>
      extend_hunt cfg rc (self1\<lparr>attack_board := (attack_board self1)\<lparr>grid := g\<rparr>\<rparr>) = Inr self2 \<and>
      self' = self2\<lparr>last_hit := Some rc\<rparr> \<and>
      opp' = opp\<lparr>ship_manager := check_sunk_ship (fst rc) (snd rc) (ship_manager opp)\<rparr>"
proof (cases "grid_set (grid (attack_board self1)) (fst rc) (snd rc) ''X''")
  case (Inl e)
  then show ?thesis
    using assms by (simp add: process_attack_def)
next
  case g: (Inr g)
  show ?thesis
  proof (cases "extend_hunt cfg rc (self1\<lparr>attack_board := (attack_board self1)\<lparr>grid := g\<rparr>\<rparr>)")
    case (Inl e)
    then show ?thesis
      using assms g by (simp add: process_attack_def)
  next
    case (Inr self2)
    then show ?thesis
      using assms g by (simp add: process_attack_def)
  qed
qed

lemma process_attack_miss:
  assumes "grid_get (grid (ship_manager opp)) (fst rc) (snd rc) \<noteq> Inr ''X''"
    and "process_attack cfg rc self1 opp = Inr (self', opp')"
  shows "\<exists>g. grid_set (grid (attack_board self1)) (fst rc) (snd rc) ''-'' = Inr g \<and>
      self' = self1\<lparr>attack_board := (attack_board self1)\<lparr>grid := g\<rparr>\<rparr> \<and> opp' = opp"
proof (cases "grid_get (grid (ship_manager opp)) (fst rc) (snd rc)")
  case (Inl e)
  then show ?thesis
    using assms by (simp add: process_attack_def)
next
  case v: (Inr v)
  then have water: "v \<noteq> ''X''" using assms(1) by simp
  show ?thesis
  proof (cases "grid_set (grid (attack_board self1)) (fst rc) (snd rc) ''-''")
    case (Inl e)
    then show ?thesis
      using assms(2) v water by (simp add: process_attack_def)
  next
    case (Inr g)
    then show ?thesis
      using assms(2) v water by (simp add: process_attack_def)
  qed
qed

lemma extend_hunt_effect:
  assumes "extend_hunt cfg rc self1 = Inr self2"
  shows "(\<exists>queued. hit_stack self2 = hit_stack self1 @ queued) \<and>
         direction self2 =
           (case last_hit self1 of
              None \<Rightarrow> direction self1
            | Some lh \<Rightarrow>
                if fst rc = fst lh then Some ''H''
                else if snd rc = snd lh then Some ''V''
                else direction self1) \<and>
         attack_board self2 = attack_board self1"
proof (cases "last_hit self1")
  case None
  then have "self2 = self1"
    using assms by (simp add: extend_hunt_def)
  then show ?thesis using None by simp
next
  case (Some lh)
  define d where "d = (if fst rc = fst lh then Some ''H''
                    else if snd rc = snd lh then Some ''V''
                    else direction self1)"
  define next_moves where "next_moves =
                 (if d = Some ''H'' then
                    [(fst rc, min (snd rc) (snd lh) - 1), (fst rc, max (snd rc) (snd lh) + 1)]
                  else
                    [(min (fst rc) (fst lh) - 1, snd rc), (max (fst rc) (fst lh) + 1, snd rc)])"
  have unfold: "extend_hunt cfg rc self1 =
      (case filter_moves cfg (grid (attack_board self1)) next_moves of
         Inl e \<Rightarrow> Inl e
       | Inr valid_moves \<Rightarrow>
           Inr (self1\<lparr>direction := d, hit_stack := hit_stack self1 @ valid_moves\<rparr>))"
    unfolding extend_hunt_def Let_def d_def next_moves_def
    by (simp only: Some option.case)
  obtain valid_moves where
    self2: "self2 = self1\<lparr>direction := d, hit_stack := hit_stack self1 @ valid_moves\<rparr>"
    using assms unfolding unfold
    by (cases "filter_moves cfg (grid (attack_board self1)) next_moves") auto
  have "direction self2 = d"
    unfolding self2 by simp
  moreover have "\<exists>queued. hit_stack self2 = hit_stack self1 @ queued"
    unfolding self2 by simp
  moreover have "attack_board self2 = attack_board self1"
    unfolding self2 by simp
  ultimately show ?thesis
    unfolding d_def using Some by simp
qed

text \<open>
  C1, as amended. For every turn of the computer that completes, the hunt state is as
  follows. If the hunt is exhausted at the start of the turn, the choice of the target
  leaves \<open>last_hit\<close> and \<open>direction\<close> unset and \<open>hit_stack\<close> empty; if it is not, the choice
  leaves \<open>last_hit\<close> and \<open>direction\<close> as they were and removes the first entry of
  \<open>hit_stack\<close>, if there is one. If the attacked cell holds a ship of the opponent, the
  hit that sinks a ship included, then after the turn \<open>last_hit\<close> is the attacked
  coordinate, \<open>hit_stack\<close> is what the choice left followed by the cells newly queued,
  \<open>direction\<close> is \<open>"H"\<close> if the cell shares its row with the last hit that the choice left,
  else \<open>"V"\<close> if it shares its column, else as the choice left it, and the opponent changes
  by \<open>check_sunk_ship\<close> only. If the attacked cell holds no ship, \<open>last_hit\<close>, \<open>direction\<close>
  and \<open>hit_stack\<close> are as the choice left them and the opponent is unchanged. So after a hit
  \<open>last_hit\<close> is set, whether or not the hit sinks a ship.
\<close>

theorem take_turn_hunt_state:
  assumes "select_target cfg rnd self opp = Inr (rc, self1)"
    and "take_turn cfg rnd self opp = Inr (self', opp')"
  shows "(hunt_exhausted cfg self \<longrightarrow>
            last_hit self1 = None \<and> direction self1 = None \<and> hit_stack self1 = []) \<and>
         (\<not> hunt_exhausted cfg self \<longrightarrow>
            last_hit self1 = last_hit self \<and> direction self1 = direction self \<and>
            hit_stack self1 = tl (hit_stack self)) \<and>
         (grid_get (grid (ship_manager opp)) (fst rc) (snd rc) = Inr ''X'' \<longrightarrow>
            last_hit self' = Some rc \<and>
            (\<exists>queued. hit_stack self' = hit_stack self1 @ queued) \<and>
            direction self' =
              (case last_hit self1 of
                 None \<Rightarrow> direction self1
               | Some lh \<Rightarrow>
                   if fst rc = fst lh then Some ''H''
                   else if snd rc = snd lh then Some ''V''
                   else direction self1) \<and>
            opp' = opp\<lparr>ship_manager := check_sunk_ship (fst rc) (snd rc) (ship_manager opp)\<rparr>) \<and>
         (grid_get (grid (ship_manager opp)) (fst rc) (snd rc) \<noteq> Inr ''X'' \<longrightarrow>
            last_hit self' = last_hit self1 \<and> direction self' = direction self1 \<and>
            hit_stack self' = hit_stack self1 \<and> opp' = opp)"
proof -
  have attack: "process_attack cfg rc self1 opp = Inr (self', opp')"
    using assms by (simp add: take_turn_def)
  have hit: "last_hit self' = Some rc \<and>
            (\<exists>queued. hit_stack self' = hit_stack self1 @ queued) \<and>
            direction self' =
              (case last_hit self1 of
                 None \<Rightarrow> direction self1
               | Some lh \<Rightarrow>
                   if fst rc = fst lh then Some ''H''
                   else if snd rc = snd lh then Some ''V''
                   else direction self1) \<and>
            opp' = opp\<lparr>ship_manager := check_sunk_ship (fst rc) (snd rc) (ship_manager opp)\<rparr>"
    if ship: "grid_get (grid (ship_manager opp)) (fst rc) (snd rc) = Inr ''X''"
  proof -
    from process_attack_hit [OF ship attack] obtain g self2
      where ext: "extend_hunt cfg rc (self1\<lparr>attack_board := (attack_board self1)\<lparr>grid := g\<rparr>\<rparr>) = Inr self2"
        and res: "self' = self2\<lparr>last_hit := Some rc\<rparr>"
          "opp' = opp\<lparr>ship_manager := check_sunk_ship (fst rc) (snd rc) (ship_manager opp)\<rparr>"
      by blast
    note effect = extend_hunt_effect [OF ext]
    show ?thesis
    proof (cases "last_hit self1")
      case None
      then show ?thesis using effect res by simp
    next
      case (Some lh)
      then show ?thesis using effect res by simp
    qed
  qed
  have miss: "last_hit self' = last_hit self1 \<and> direction self' = direction self1 \<and>
            hit_stack self' = hit_stack self1 \<and> opp' = opp"
    if water: "grid_get (grid (ship_manager opp)) (fst rc) (snd rc) \<noteq> Inr ''X''"
  proof -
    from process_attack_miss [OF water attack] obtain g
      where "self' = self1\<lparr>attack_board := (attack_board self1)\<lparr>grid := g\<rparr>\<rparr>" "opp' = opp"
      by blast
    then show ?thesis by simp
  qed
  show ?thesis
    using select_target_hunt_state [OF assms(1)] hit miss by blast
qed

theorem take_turn_hunt_state_witness:
  "select_target standard_config 0 computer_after_4 human_after_4 =
     Inr ((3, 1), computer_after_4\<lparr>hit_stack := [(3, 5), (3, 1), (3, 6)]\<rparr>) \<and>
   take_turn standard_config 0 computer_after_4 human_after_4 =
     Inr (computer_after_5, human_after_5) \<and>
   \<not> hunt_exhausted standard_config computer_after_4 \<and>
   grid_get (grid (ship_manager human_after_4)) 3 1 = Inr ''X'' \<and>
   last_hit computer_after_5 = Some (3, 1) \<and>
   direction computer_after_5 = Some ''H'' \<and>
   (\<exists>queued. hit_stack computer_after_5 = [(3, 5), (3, 1), (3, 6)] @ queued) \<and>
   human_after_5 =
     human_after_4\<lparr>ship_manager := check_sunk_ship 3 1 (ship_manager human_after_4)\<rparr> \<and>
   select_target small_config 0 small_computer_after_2 small_human_after_2 =
     Inr ((1, 0), small_reset\<lparr>probability_map := [[0, 0], [4, 4]]\<rparr>) \<and>
   take_turn small_config 0 small_computer_after_2 small_human_after_2 =
     Inr (small_computer_after_3, small_human_after_2) \<and>
   hunt_exhausted small_config small_computer_after_2 \<and>
   grid_get (grid (ship_manager small_human_after_2)) 1 0 \<noteq> Inr ''X'' \<and>
   last_hit small_computer_after_3 = None \<and>
   direction small_computer_after_3 = None \<and>
   hit_stack small_computer_after_3 = [] \<and>
   direction small_computer_after_2 = Some ''H'' \<and>
   take_turn small_config 0 small_computer_after_2 patrol_human_after_2 =
     Inr (patrol_computer_after_3,
          patrol_human_after_2
            \<lparr>ship_manager := check_sunk_ship 1 0 (ship_manager patrol_human_after_2)\<rparr>) \<and>
   grid_get (grid (ship_manager patrol_human_after_2)) 1 0 = Inr ''X'' \<and>
   last_hit patrol_computer_after_3 = Some (1, 0) \<and>
   direction patrol_computer_after_3 = None"
proof -
  let ?s5 = "computer_after_4\<lparr>hit_stack := [(3, 5), (3, 1), (3, 6)]\<rparr>"
  let ?s3 = "small_reset\<lparr>probability_map := [[0, 0], [4, 4]]\<rparr>"
  have ship5: "grid_get (grid (ship_manager human_after_4)) (fst (3 :: int, 1 :: int))
                 (snd (3 :: int, 1 :: int)) = Inr ''X''"
    using fifth_target_is_ship by (simp only: fst_conv snd_conv)
  have sel5: "last_hit ?s5 = Some (3, 5)" "hit_stack ?s5 = [(3, 5), (3, 1), (3, 6)]"
    by (simp_all add: computer_after_4_def)
  have five: "last_hit computer_after_5 = Some (3, 1) \<and>
      (\<exists>queued. hit_stack computer_after_5 = hit_stack ?s5 @ queued) \<and>
      direction computer_after_5 =
        (case last_hit ?s5 of
           None \<Rightarrow> direction ?s5
         | Some lh \<Rightarrow>
             if fst (3 :: int, 1 :: int) = fst lh then Some ''H''
             else if snd (3 :: int, 1 :: int) = snd lh then Some ''V''
             else direction ?s5) \<and>
      human_after_5 =
        human_after_4
          \<lparr>ship_manager :=
             check_sunk_ship (fst (3 :: int, 1 :: int)) (snd (3 :: int, 1 :: int))
               (ship_manager human_after_4)\<rparr>"
    using take_turn_hunt_state [OF fifth_selection fifth_turn] ship5 by blast
  have a: "last_hit computer_after_5 = Some (3, 1)"
    using five by blast
  have b: "direction computer_after_5 = Some ''H''"
    using five unfolding sel5 by simp
  have c: "\<exists>queued. hit_stack computer_after_5 = [(3, 5), (3, 1), (3, 6)] @ queued"
    using five unfolding sel5 by blast
  have d: "human_after_5 =
     human_after_4\<lparr>ship_manager := check_sunk_ship 3 1 (ship_manager human_after_4)\<rparr>"
    using five by (simp only: fst_conv snd_conv)
  have water3: "grid_get (grid (ship_manager small_human_after_2)) (fst (1 :: int, 0 :: int))
                  (snd (1 :: int, 0 :: int)) \<noteq> Inr ''X''"
    using small_third_target_is_water by simp
  have cleared: "last_hit ?s3 = None \<and> direction ?s3 = None \<and> hit_stack ?s3 = []"
    using take_turn_hunt_state [OF small_third_selection small_third_turn]
      small_hunt_is_exhausted by blast
  have kept: "last_hit small_computer_after_3 = last_hit ?s3 \<and>
      direction small_computer_after_3 = direction ?s3 \<and>
      hit_stack small_computer_after_3 = hit_stack ?s3"
    using take_turn_hunt_state [OF small_third_selection small_third_turn] water3 by blast
  have e: "last_hit small_computer_after_3 = None" "direction small_computer_after_3 = None"
    "hit_stack small_computer_after_3 = []"
    using cleared kept by simp_all
  have f: "direction small_computer_after_2 = Some ''H''"
    by (simp add: small_computer_after_2_def)
  have ship3: "grid_get (grid (ship_manager patrol_human_after_2)) (fst (1 :: int, 0 :: int))
                 (snd (1 :: int, 0 :: int)) = Inr ''X''"
    using patrol_third_target_is_ship by (simp only: fst_conv snd_conv)
  have cleared': "last_hit ?s3 = None \<and> direction ?s3 = None"
    using take_turn_hunt_state [OF patrol_third_selection patrol_third_turn]
      small_hunt_is_exhausted by blast
  have patrol: "last_hit patrol_computer_after_3 = Some (1, 0) \<and>
      direction patrol_computer_after_3 =
        (case last_hit ?s3 of
           None \<Rightarrow> direction ?s3
         | Some lh \<Rightarrow>
             if fst (1 :: int, 0 :: int) = fst lh then Some ''H''
             else if snd (1 :: int, 0 :: int) = snd lh then Some ''V''
             else direction ?s3)"
    using take_turn_hunt_state [OF patrol_third_selection patrol_third_turn] ship3 by blast
  have g: "last_hit patrol_computer_after_3 = Some (1, 0)"
    using patrol by blast
  have h: "direction patrol_computer_after_3 = None"
    using patrol cleared' by simp
  have water: "grid_get (grid (ship_manager small_human_after_2)) 1 0 \<noteq> Inr ''X''"
    using small_third_target_is_water by simp
  show ?thesis
    using fifth_selection fifth_turn fifth_hunt_not_exhausted fifth_target_is_ship a b c d
      small_third_selection small_third_turn small_hunt_is_exhausted water e f
      patrol_third_turn patrol_third_target_is_ship g h
    by blast
qed

text \<open>
  The claim as stated fails on the fifth turn of the game on the standard board: the attack
  on (3,1) removes the last coordinate of the Carrier, and after the turn \<open>last_hit\<close> is
  (3,1), \<open>direction\<close> is \<open>"H"\<close> and \<open>hit_stack\<close> holds five cells.
\<close>

theorem take_turn_sinking_keeps_hunt_state_counterexample:
  "computer_turns standard_config [0, 3, 0, 0] (ComputerPlayer_init standard_config, human_fleet) =
     Inr (computer_after_4, human_after_4) \<and>
   select_target standard_config 0 computer_after_4 human_after_4 =
     Inr ((3, 1), computer_after_4\<lparr>hit_stack := [(3, 5), (3, 1), (3, 6)]\<rparr>) \<and>
   map_of (ship_locations (ship_manager human_after_4)) ''Carrier'' = Some [(3, 1)] \<and>
   take_turn standard_config 0 computer_after_4 human_after_4 =
     Inr (computer_after_5, human_after_5) \<and>
   map_of (ship_locations (ship_manager human_after_5)) ''Carrier'' = None \<and>
   last_hit computer_after_5 = Some (3, 1) \<and>
   direction computer_after_5 = Some ''H'' \<and>
   hit_stack computer_after_5 = [(3, 5), (3, 1), (3, 6), (3, 0), (3, 6)]"
proof -
  have "map_of (ship_locations (ship_manager human_after_4)) ''Carrier'' = Some [(3, 1)]"
    by code_simp
  moreover have "map_of (ship_locations (ship_manager human_after_5)) ''Carrier'' = None"
    by code_simp
  moreover have "last_hit computer_after_5 = Some (3, 1)"
    "direction computer_after_5 = Some ''H''"
    "hit_stack computer_after_5 = [(3, 5), (3, 1), (3, 6), (3, 0), (3, 6)]"
    by (simp_all add: computer_after_5_def)
  ultimately show ?thesis
    using four_turns fifth_selection fifth_turn by blast
qed

text \<open>
  C2. The computer does attack a cell twice. After five turns of the game on the standard
  board the human still has four ships, the cell (3,5) of the computer's attack board is
  marked \<open>"X"\<close>, and the sixth turn takes (3,5) from the front of \<open>hit_stack\<close>, where it was
  queued a second time while it was still free. With an empty \<open>hit_stack\<close> the target is
  never an attacked cell as long as a free cell is left (\<open>select_target_fresh_cell\<close>).
\<close>

theorem take_turn_attacks_cell_twice:
  "computer_turns standard_config [0, 3, 0, 0, 0]
     (ComputerPlayer_init standard_config, human_fleet) =
     Inr (computer_after_5, human_after_5) \<and>
   \<not> all_ships_sunk (ship_manager human_after_5) \<and>
   grid_get (grid (attack_board computer_after_5)) 3 5 = Inr ''X'' \<and>
   select_target standard_config 0 computer_after_5 human_after_5 =
     Inr ((3, 5), computer_after_5\<lparr>hit_stack := [(3, 1), (3, 6), (3, 0), (3, 6)]\<rparr>)"
proof -
  have "\<not> all_ships_sunk (ship_manager human_after_5)"
    by code_simp
  moreover have "grid_get (grid (attack_board computer_after_5)) 3 5 = Inr ''X''"
    by code_simp
  ultimately show ?thesis
    using five_turns sixth_selection by blast
qed

end
